theory Spec2Isabelle
  imports Complex_Main "HOL-Library.Monad_Syntax"
begin

chapter \<open>The text-to-speech worker of supertonic-demo\<close>

text \<open>
  A shallow embedding of the worker script (the text processor, the chunker, the latent
  sampler, the denoising loop, the chunk loop and the WAV writer), followed by the
  properties its specification states about them.

  Conventions of the embedding.
  \<^item> A JavaScript string is the list of its UTF-16 code units, each a natural number
    below \<open>0x10000\<close>; \<open>lit ''abc''\<close> is the string of an ASCII literal.
  \<^item> A JavaScript number is a real (exact arithmetic: rounding, infinities and NaN are
    not part of the model) unless the code only uses it as a count, where it is a
    natural number or an integer.
  \<^item> A \<open>throw\<close> is the left injection of a sum type.
  \<^item> \<open>String.prototype.normalize\<close>, \<open>Math.random\<close> and the four ONNX sessions belong
    to the runtime; they are parameters of the functions that call them.
\<close>

section \<open>Strings\<close>

type_synonym jsstring = "nat list"

abbreviation lit :: "string \<Rightarrow> jsstring" where
  "lit s \<equiv> map of_char s"

definition inRange :: "nat \<Rightarrow> nat \<Rightarrow> nat \<Rightarrow> bool" where
  "inRange lo hi c = (lo \<le> c \<and> c \<le> hi)"

text \<open>\<open>\s\<close> of a regular expression and the characters \<open>trim\<close> removes: the same set.\<close>

definition isWhitespace :: "nat \<Rightarrow> bool" where
  "isWhitespace c =
     (c \<in> set [0x09, 0x0A, 0x0B, 0x0C, 0x0D, 0x20, 0xA0, 0x1680, 0x2028, 0x2029, 0x202F,
                0x205F, 0x3000, 0xFEFF] \<or> inRange 0x2000 0x200A c)"

definition trimStart :: "jsstring \<Rightarrow> jsstring" where
  "trimStart text = dropWhile isWhitespace text"

fun trimEnd :: "jsstring \<Rightarrow> jsstring" where
  "trimEnd [] = []"
| "trimEnd (c # cs) =
     (case trimEnd cs of
        [] \<Rightarrow> if isWhitespace c then [] else [c]
      | d # ds \<Rightarrow> c # d # ds)"

definition trim :: "jsstring \<Rightarrow> jsstring" where
  "trim text = trimStart (trimEnd text)"

definition startsWith :: "jsstring \<Rightarrow> jsstring \<Rightarrow> bool" where
  "startsWith pattern text = (take (length pattern) text = pattern)"

text \<open>\<open>text.includes(pattern)\<close>.\<close>

fun stringIncludes :: "jsstring \<Rightarrow> jsstring \<Rightarrow> bool" where
  "stringIncludes pattern [] = (pattern = [])"
| "stringIncludes pattern (c # cs) = (startsWith pattern (c # cs) \<or> stringIncludes pattern cs)"

text \<open>\<open>text.replace(pattern, replacement)\<close> with a string pattern: the first occurrence.\<close>

fun replaceFirst :: "jsstring \<Rightarrow> jsstring \<Rightarrow> jsstring \<Rightarrow> jsstring" where
  "replaceFirst pattern replacement [] = (if pattern = [] then replacement else [])"
| "replaceFirst pattern replacement (c # cs) =
     (if startsWith pattern (c # cs) then replacement @ drop (length pattern) (c # cs)
      else c # replaceFirst pattern replacement cs)"

text \<open>
  \<open>text.replaceAll(pattern, replacement)\<close> with a string pattern: every occurrence, left
  to right, without overlap. None of the replacement strings of the tables below has a
  \<open>$\<close>, so the replacement is taken literally.
\<close>

function replaceAllNonEmpty :: "jsstring \<Rightarrow> jsstring \<Rightarrow> jsstring \<Rightarrow> jsstring" where
  "replaceAllNonEmpty pattern replacement [] = []"
| "replaceAllNonEmpty pattern replacement (c # cs) =
     (if startsWith pattern (c # cs)
      then replacement @ replaceAllNonEmpty pattern replacement (drop (length pattern - 1) cs)
      else c # replaceAllNonEmpty pattern replacement cs)"
  by pat_completeness auto
termination
  by (relation "measure (\<lambda>(p, r, t). length t)") auto

definition replaceAll :: "jsstring \<Rightarrow> jsstring \<Rightarrow> jsstring \<Rightarrow> jsstring" where
  "replaceAll pattern replacement text =
     (if pattern = [] then concat (map (\<lambda>c. replacement @ [c]) text) @ replacement
      else replaceAllNonEmpty pattern replacement text)"

section \<open>UnicodeProcessor.preprocessText\<close>

definition isHighSurrogate :: "nat \<Rightarrow> bool" where
  "isHighSurrogate c = inRange 0xD800 0xDBFF c"

definition isLowSurrogate :: "nat \<Rightarrow> bool" where
  "isLowSurrogate c = inRange 0xDC00 0xDFFF c"

definition surrogatePair :: "nat \<Rightarrow> nat \<Rightarrow> nat" where
  "surrogatePair hi lo = (hi - 0xD800) * 0x400 + (lo - 0xDC00) + 0x10000"

text \<open>The character class of \<open>EMOJI_PATTERN\<close>, on code points (the pattern has the \<open>u\<close> flag).\<close>

definition EMOJI_PATTERN :: "nat \<Rightarrow> bool" where
  "EMOJI_PATTERN cp =
     (inRange 0x1F600 0x1F64F cp \<or> inRange 0x1F300 0x1F5FF cp \<or> inRange 0x1F680 0x1F6FF cp \<or>
      inRange 0x1F700 0x1F77F cp \<or> inRange 0x1F780 0x1F7FF cp \<or> inRange 0x1F800 0x1F8FF cp \<or>
      inRange 0x1F900 0x1F9FF cp \<or> inRange 0x1FA00 0x1FA6F cp \<or> inRange 0x1FA70 0x1FAFF cp \<or>
      inRange 0x2600 0x26FF cp \<or> inRange 0x2700 0x27BF cp \<or> inRange 0x1F1E6 0x1F1FF cp)"

text \<open>
  \<open>text.replace(EMOJI_PATTERN, '')\<close>: the scan reads code points, a high surrogate with
  the low surrogate after it being one code point.
\<close>

fun removeEmoji :: "jsstring \<Rightarrow> jsstring" where
  "removeEmoji [] = []"
| "removeEmoji [c] = (if EMOJI_PATTERN c then [] else [c])"
| "removeEmoji (a # b # rest) =
     (if isHighSurrogate a \<and> isLowSurrogate b
      then (if EMOJI_PATTERN (surrogatePair a b) then removeEmoji rest
            else a # b # removeEmoji rest)
      else (if EMOJI_PATTERN a then removeEmoji (b # rest) else a # removeEmoji (b # rest)))"

text \<open>
  The replacement tables, in the order \<open>Object.entries\<close> lists them. The source file has
  the straight double quote as a key twice, mapped to itself.
\<close>

definition CHAR_REPLACEMENTS :: "(jsstring \<times> jsstring) list" where
  "CHAR_REPLACEMENTS =
     [([0x2013], lit ''-''), ([0x2011], lit ''-''), ([0x2014], lit ''-''), ([0xAF], lit '' ''),
      (lit ''_'', lit '' ''), ([0x22], [0x22]), ([0x2018], [0x27]), ([0x2019], [0x27]),
      ([0xB4], [0x27]), ([0x60], [0x27]), (lit ''['', lit '' ''), (lit '']'', lit '' ''),
      (lit ''|'', lit '' ''), (lit ''/'', lit '' ''), (lit ''#'', lit '' ''),
      ([0x2192], lit '' ''), ([0x2190], lit '' '')]"

definition EXPR_REPLACEMENTS :: "(jsstring \<times> jsstring) list" where
  "EXPR_REPLACEMENTS =
     [(lit ''@'', lit '' at ''), (lit ''e.g.,'', lit ''for example, ''),
      (lit ''i.e.,'', lit ''that is, '')]"

definition DUPLICATE_QUOTES :: "(jsstring \<times> jsstring) list" where
  "DUPLICATE_QUOTES = [([0x22, 0x22], [0x22]), ([0x27, 0x27], [0x27]), ([0x60, 0x60], [0x60])]"

definition DIACRITICS_PATTERN :: "nat \<Rightarrow> bool" where
  "DIACRITICS_PATTERN c =
     (c \<in> set [0x0302, 0x0303, 0x0304, 0x0305, 0x0306, 0x0307, 0x0308, 0x030A, 0x030B, 0x030C,
                0x0327, 0x0328, 0x0329, 0x032A, 0x032B, 0x032C, 0x032D, 0x032E, 0x032F])"

definition SPECIAL_SYMBOLS_PATTERN :: "nat \<Rightarrow> bool" where
  "SPECIAL_SYMBOLS_PATTERN c = (c \<in> set [0x2665, 0x2606, 0x2661, 0xA9, 0x5C])"

text \<open>The class of \<open>SPACING_PUNCTUATION_PATTERN\<close> and the replacement by its group.\<close>

definition spacedPunctuation :: "nat \<Rightarrow> bool" where
  "spacedPunctuation c = (c \<in> set (lit '',.!?;:'') \<or> c = 0x27)"

fun removeSpaceBeforePunctuation :: "jsstring \<Rightarrow> jsstring" where
  "removeSpaceBeforePunctuation (a # b # rest) =
     (if a = 0x20 \<and> spacedPunctuation b then b # removeSpaceBeforePunctuation rest
      else a # removeSpaceBeforePunctuation (b # rest))"
| "removeSpaceBeforePunctuation text = text"

text \<open>\<open>text.replace(MULTIPLE_SPACES_PATTERN, ' ')\<close>: every maximal run of whitespace.\<close>

function collapseWhitespace :: "jsstring \<Rightarrow> jsstring" where
  "collapseWhitespace [] = []"
| "collapseWhitespace (c # cs) =
     (if isWhitespace c then 0x20 # collapseWhitespace (dropWhile isWhitespace cs)
      else c # collapseWhitespace cs)"
  by pat_completeness auto
termination
  by (relation "measure length") (auto simp: length_dropWhile_le less_Suc_eq_le)

definition ENDING_PUNCTUATION :: "nat list" where
  "ENDING_PUNCTUATION =
     lit ''.!?;:,'' @ [0x27, 0x22, 0x27] @ lit '')]}'' @
     [0x2026, 0x3002, 0x300D, 0x300F, 0x3011, 0x3009, 0x300B, 0x203A, 0xBB]"

text \<open>\<open>ENDING_PUNCTUATION_PATTERN.test(text)\<close>: the class, then the end of the input.\<close>

definition ENDING_PUNCTUATION_PATTERN :: "jsstring \<Rightarrow> bool" where
  "ENDING_PUNCTUATION_PATTERN text = (text \<noteq> [] \<and> last text \<in> set ENDING_PUNCTUATION)"

text \<open>
  The \<open>while (text.includes(pattern)) text = text.replace(pattern, replacement)\<close> loop.
  Nothing in its text bounds it, so not returning is the value \<open>None\<close>.
\<close>

partial_function (option) collapseDuplicate ::
  "jsstring \<Rightarrow> jsstring \<Rightarrow> jsstring \<Rightarrow> jsstring option" where
  "collapseDuplicate pattern replacement text =
     (if stringIncludes pattern text
      then collapseDuplicate pattern replacement (replaceFirst pattern replacement text)
      else Some text)"

fun collapseDuplicates :: "(jsstring \<times> jsstring) list \<Rightarrow> jsstring \<Rightarrow> jsstring option" where
  "collapseDuplicates [] text = Some text"
| "collapseDuplicates ((pattern, replacement) # rest) text =
     collapseDuplicate pattern replacement text \<bind> collapseDuplicates rest"

definition replaceEach :: "(jsstring \<times> jsstring) list \<Rightarrow> jsstring \<Rightarrow> jsstring" where
  "replaceEach table text = foldl (\<lambda>t (k, v). replaceAll k v t) text table"

text \<open>
  \<open>preprocessText\<close> up to the trim (lines 53 to 75), then the whole function.
  \<open>nfkd\<close> is the runtime's \<open>normalize('NFKD')\<close>.
\<close>

definition preprocessBody :: "(jsstring \<Rightarrow> jsstring) \<Rightarrow> jsstring \<Rightarrow> jsstring option" where
  "preprocessBody nfkd text =
     (let text = nfkd text;
          text = removeEmoji text;
          text = replaceEach CHAR_REPLACEMENTS text;
          text = filter (\<lambda>c. \<not> DIACRITICS_PATTERN c) text;
          text = filter (\<lambda>c. \<not> SPECIAL_SYMBOLS_PATTERN c) text;
          text = replaceEach EXPR_REPLACEMENTS text;
          text = removeSpaceBeforePunctuation text
      in collapseDuplicates DUPLICATE_QUOTES text \<bind>
         (\<lambda>text. Some (trim (collapseWhitespace text))))"

definition preprocessText :: "(jsstring \<Rightarrow> jsstring) \<Rightarrow> jsstring \<Rightarrow> jsstring option" where
  "preprocessText nfkd text =
     preprocessBody nfkd text \<bind>
       (\<lambda>text. Some (if \<not> ENDING_PUNCTUATION_PATTERN text then text @ lit ''.'' else text))"

text \<open>
  \<open>normalize('NFKD')\<close> on a string that is already in that form (ASCII text, a code point
  with no decomposition mapping and no combining class): it returns the string. The
  concrete evaluations below are all at such strings.
\<close>

definition nfkdOfNormalized :: "jsstring \<Rightarrow> jsstring" where
  "nfkdOfNormalized text = text"

section \<open>Errors\<close>

text \<open>
  What the worker can throw: the \<open>RangeError\<close> of an array constructor given an invalid
  length, the \<open>TypeError\<close> of a property read on \<open>undefined\<close>, the two \<open>Error\<close>s the script
  throws itself, and a failure of an ONNX session. \<open>NoReturn\<close> stands for a normalization
  that does not return.
\<close>

datatype error =
    RangeError
  | TypeError
  | SingleStyleError
  | ChunkTextExpectsString string
  | EngineError string
  | NoReturn

section \<open>UnicodeProcessor.call\<close>

record tokenBatch =
  textIds :: "int list list"
  textMask :: "real list list list"

text \<open>
  \<open>lengthToMask\<close> (the two classes have the same text). \<open>maxLen\<close> is \<open>None\<close> for \<open>null\<close>;
  \<open>maxLen || ...\<close> also takes the maximum when \<open>maxLen\<close> is 0. \<open>Math.max(...xs)\<close> is
  \<open>Max (set xs)\<close> for a list that is not empty. With no length the callback of \<open>map\<close>
  never runs, so nothing is constructed. \<open>new Array(n)\<close> throws unless \<open>0 \<le> n < 2^32\<close>.
\<close>

definition maskRow :: "int \<Rightarrow> int \<Rightarrow> real list" where
  "maskRow len actualMaxLen =
     foldl (\<lambda>row j. row[j := 1]) (replicate (nat actualMaxLen) 0)
       [0 ..< nat (min len actualMaxLen)]"

definition lengthToMask :: "int list \<Rightarrow> int option \<Rightarrow> error + real list list list" where
  "lengthToMask lengths maxLen =
     (if lengths = [] then Inr []
      else
        let actualMaxLen =
              (case maxLen of
                 Some m \<Rightarrow> if m \<noteq> 0 then m else Max (set lengths)
               | None \<Rightarrow> Max (set lengths))
        in if actualMaxLen < 0 \<or> 2 ^ 32 \<le> actualMaxLen then Inl RangeError
           else Inr (map (\<lambda>len. [maskRow len actualMaxLen]) lengths))"

definition getTextMask :: "int list \<Rightarrow> error + real list list list" where
  "getTextMask textIdsLengths =
     (if textIdsLengths = [] then Inr []
      else lengthToMask textIdsLengths (Some (Max (set textIdsLengths))))"

text \<open>\<open>text.codePointAt(j)\<close> for \<open>j < text.length\<close>.\<close>

definition codePointAt :: "jsstring \<Rightarrow> nat \<Rightarrow> nat" where
  "codePointAt text j =
     (if isHighSurrogate (text ! j) \<and> j + 1 < length text \<and> isLowSurrogate (text ! (j + 1))
      then surrogatePair (text ! j) (text ! (j + 1))
      else text ! j)"

definition indexerId :: "int list \<Rightarrow> nat \<Rightarrow> int" where
  "indexerId indexer codePoint =
     (if codePoint < length indexer then indexer ! codePoint else - 1)"

definition encodeRow :: "int list \<Rightarrow> nat \<Rightarrow> jsstring \<Rightarrow> int list" where
  "encodeRow indexer maxLen text =
     foldl (\<lambda>row j. row[j := indexerId indexer (codePointAt text j)]) (replicate maxLen 0)
       [0 ..< length text]"

text \<open>
  \<open>call\<close>: \<open>indexer\<close> is the table of the processor, \<open>nfkd\<close> the runtime's normalization.
  Every \<open>text.length\<close> is at most \<open>maxLen\<close>, so no assignment \<open>row[j] = ...\<close> is out of range.
\<close>

definition UnicodeProcessor_call ::
  "int list \<Rightarrow> (jsstring \<Rightarrow> jsstring) \<Rightarrow> jsstring list \<Rightarrow> error + tokenBatch" where
  "UnicodeProcessor_call indexer nfkd textList =
     (case those (map (preprocessText nfkd) textList) of
        None \<Rightarrow> Inl NoReturn
      | Some processedTexts \<Rightarrow>
          if processedTexts = [] then Inr \<lparr>textIds = [], textMask = []\<rparr>
          else
            let textIdsLengths = map (\<lambda>text. int (length text)) processedTexts;
                maxLen = Max (set textIdsLengths)
            in if 2 ^ 32 \<le> maxLen then Inl RangeError
               else
                 let idRows = map (encodeRow indexer (nat maxLen)) processedTexts
                 in (case getTextMask textIdsLengths of
                       Inl e \<Rightarrow> Inl e
                     | Inr maskRows \<Rightarrow> Inr \<lparr>textIds = idRows, textMask = maskRows\<rparr>))"

text \<open>
  The code points of a string, for the length the specification speaks of: a surrogate
  pair is one code point.
\<close>

fun codePointsOf :: "jsstring \<Rightarrow> nat list" where
  "codePointsOf (a # b # rest) =
     (if isHighSurrogate a \<and> isLowSurrogate b then surrogatePair a b # codePointsOf rest
      else a # codePointsOf (b # rest))"
| "codePointsOf text = text"

section \<open>chunkText\<close>

text \<open>The values a caller can pass where a string is expected, and their \<open>typeof\<close>.\<close>

datatype jsvalue =
    JSString jsstring
  | JSNumber real
  | JSBoolean bool
  | JSUndefined
  | JSNull
  | JSObject

fun typeOf :: "jsvalue \<Rightarrow> string" where
  "typeOf (JSString s) = ''string''"
| "typeOf (JSNumber x) = ''number''"
| "typeOf (JSBoolean b) = ''boolean''"
| "typeOf JSUndefined = ''undefined''"
| "typeOf JSNull = ''object''"
| "typeOf JSObject = ''object''"

text \<open>
  \<open>text.split(pattern)\<close> for a pattern that never matches the empty string. \<open>matchAt\<close>
  is the pattern tried at one position: it gets the code units behind the position,
  the nearest first (what a lookbehind reads), and those from the position on, and
  returns the length of the match, 0 for no match. \<open>piece\<close> is the piece being read,
  reversed.
\<close>

function splitBy ::
  "(jsstring \<Rightarrow> jsstring \<Rightarrow> nat) \<Rightarrow> jsstring \<Rightarrow> jsstring \<Rightarrow> jsstring \<Rightarrow> jsstring list" where
  "splitBy matchAt behind piece [] = [rev piece]"
| "splitBy matchAt behind piece (c # cs) =
     (case matchAt behind (c # cs) of
        0 \<Rightarrow> splitBy matchAt (c # behind) (c # piece) cs
      | Suc n \<Rightarrow>
          rev piece # splitBy matchAt (rev (take n cs) @ c # behind) [] (drop n cs))"
  by pat_completeness auto
termination
  by (relation "measure (\<lambda>(m, b, p, s). length s)") auto

definition split :: "(jsstring \<Rightarrow> jsstring \<Rightarrow> nat) \<Rightarrow> jsstring \<Rightarrow> jsstring list" where
  "split matchAt text = splitBy matchAt [] [] text"

text \<open>
  The paragraph pattern \<open>/\n\s*\n+/\<close> at one position: a line feed, then the run of
  whitespace after it up to and with its last line feed.
\<close>

definition paragraphBreakAt :: "jsstring \<Rightarrow> jsstring \<Rightarrow> nat" where
  "paragraphBreakAt behind text =
     (case text of
        [] \<Rightarrow> 0
      | c # cs \<Rightarrow>
          let run = takeWhile isWhitespace cs
          in if c = 0x0A \<and> 0x0A \<in> set run
             then 1 + (length run - length (takeWhile (\<lambda>x. x \<noteq> 0x0A) (rev run)))
             else 0)"

text \<open>\<open>SENTENCE_SPLIT_PATTERN\<close>: its three lookbehinds, then \<open>\s+\<close>.\<close>

definition ABBREVIATIONS :: "jsstring list" where
  "ABBREVIATIONS =
     map lit [''Mr.'', ''Mrs.'', ''Ms.'', ''Dr.'', ''Prof.'', ''Sr.'', ''Jr.'', ''Ph.D.'', ''etc.'',
              ''e.g.'', ''i.e.'', ''vs.'', ''Inc.'', ''Ltd.'', ''Co.'', ''Corp.'', ''St.'', ''Ave.'',
              ''Blvd.'']"

definition afterAbbreviation :: "jsstring \<Rightarrow> bool" where
  "afterAbbreviation behind = list_ex (\<lambda>a. startsWith (rev a) behind) ABBREVIATIONS"

definition isWordChar :: "nat \<Rightarrow> bool" where
  "isWordChar c =
     (inRange 0x41 0x5A c \<or> inRange 0x61 0x7A c \<or> inRange 0x30 0x39 c \<or> c = 0x5F)"

text \<open>\<open>\b[A-Z]\.\<close> read backwards: a period, a capital, and no word character behind it.\<close>

fun afterInitial :: "jsstring \<Rightarrow> bool" where
  "afterInitial (dot # letter # []) = (dot = 0x2E \<and> inRange 0x41 0x5A letter)"
| "afterInitial (dot # letter # c # rest) =
     (dot = 0x2E \<and> inRange 0x41 0x5A letter \<and> \<not> isWordChar c)"
| "afterInitial behind = False"

fun afterTerminator :: "jsstring \<Rightarrow> bool" where
  "afterTerminator [] = False"
| "afterTerminator (c # rest) = (c \<in> set (lit ''.!?''))"

definition sentenceBreakAt :: "jsstring \<Rightarrow> jsstring \<Rightarrow> nat" where
  "sentenceBreakAt behind text =
     (if \<not> afterAbbreviation behind \<and> \<not> afterInitial behind \<and> afterTerminator behind
      then length (takeWhile isWhitespace text)
      else 0)"

text \<open>The body of the loop over the sentences: the state is \<open>(chunks, currentChunk)\<close>.\<close>

definition addSentence :: "int \<Rightarrow> jsstring list \<times> jsstring \<Rightarrow> jsstring \<Rightarrow> jsstring list \<times> jsstring" where
  "addSentence maxLen state sentence =
     (let (chunks, currentChunk) = state
      in if int (length currentChunk) + int (length sentence) + 1 \<le> maxLen
         then (chunks, currentChunk @ (if currentChunk \<noteq> [] then lit '' '' else []) @ sentence)
         else (if currentChunk \<noteq> [] then chunks @ [trim currentChunk] else chunks, sentence))"

definition sentencesOf :: "jsstring \<Rightarrow> jsstring list" where
  "sentencesOf paragraph = split sentenceBreakAt paragraph"

text \<open>The push after the loop over the sentences.\<close>

definition pushLast :: "jsstring list \<times> jsstring \<Rightarrow> jsstring list" where
  "pushLast state =
     (let (chunks, currentChunk) = state
      in if currentChunk \<noteq> [] then chunks @ [trim currentChunk] else chunks)"

text \<open>The body of the loop over the paragraphs: the chunks it pushes.\<close>

definition paragraphChunks :: "int \<Rightarrow> jsstring \<Rightarrow> jsstring list" where
  "paragraphChunks maxLen paragraph =
     (let paragraph = trim paragraph
      in if paragraph = [] then []
         else pushLast (foldl (addSentence maxLen) ([], []) (sentencesOf paragraph)))"

definition paragraphsOf :: "jsstring \<Rightarrow> jsstring list" where
  "paragraphsOf text = filter (\<lambda>p. trim p \<noteq> []) (split paragraphBreakAt (trim text))"

text \<open>\<open>chunkText(text, maxLen = 300)\<close>; \<open>None\<close> is the omitted argument.\<close>

definition maxLenOrDefault :: "int option \<Rightarrow> int" where
  "maxLenOrDefault maxLenArg = (case maxLenArg of None \<Rightarrow> 300 | Some m \<Rightarrow> m)"

definition chunkText :: "jsvalue \<Rightarrow> int option \<Rightarrow> error + jsstring list" where
  "chunkText text maxLenArg =
     (case text of
        JSString s \<Rightarrow>
          let maxLen = maxLenOrDefault maxLenArg
          in Inr (concat (map (paragraphChunks maxLen) (paragraphsOf s)))
      | _ \<Rightarrow> Inl (ChunkTextExpectsString (typeOf text)))"

text \<open>
  The chunks as the specification describes them, for the comparison with the loop: a
  chunk is a group of whole sentences joined by single spaces; a sentence joins the
  current group while the joined length stays within \<open>maxLen\<close>, and starts the next
  group otherwise.
\<close>

fun joinSentences :: "jsstring list \<Rightarrow> jsstring" where
  "joinSentences [] = []"
| "joinSentences [s] = s"
| "joinSentences (s # t # ss) = s @ lit '' '' @ joinSentences (t # ss)"

fun greedyGroups :: "int \<Rightarrow> jsstring list \<Rightarrow> jsstring list \<Rightarrow> jsstring list list" where
  "greedyGroups maxLen current [] = (if current = [] then [] else [current])"
| "greedyGroups maxLen current (s # ss) =
     (if current \<noteq> [] \<and> maxLen < int (length (joinSentences current)) + int (length s) + 1
      then current # greedyGroups maxLen [s] ss
      else greedyGroups maxLen (current @ [s]) ss)"

text \<open>Every group ends where the first sentence of the next one no longer fits.\<close>

fun greedyBreaks :: "int \<Rightarrow> jsstring list list \<Rightarrow> bool" where
  "greedyBreaks maxLen (g # h # gs) =
     (maxLen < int (length (joinSentences g)) + int (length (hd h)) + 1 \<and>
      greedyBreaks maxLen (h # gs))"
| "greedyBreaks maxLen gs = True"

section \<open>writeWavFile\<close>

text \<open>
  The buffer is the list of its bytes, each a natural number below 256. Every write of
  the function is inside the buffer, which has \<open>44 + dataSize\<close> bytes.
\<close>

fun setBytes :: "nat \<Rightarrow> nat list \<Rightarrow> nat list \<Rightarrow> nat list" where
  "setBytes offset [] buffer = buffer"
| "setBytes offset (b # bs) buffer = setBytes (Suc offset) bs (buffer[offset := b])"

text \<open>\<open>view.setUint16(offset, v, true)\<close> and \<open>view.setUint32(offset, v, true)\<close>: little endian.\<close>

definition setUint16 :: "nat \<Rightarrow> nat \<Rightarrow> nat list \<Rightarrow> nat list" where
  "setUint16 offset v buffer = setBytes offset [v mod 256, v div 256 mod 256] buffer"

definition setUint32 :: "nat \<Rightarrow> nat \<Rightarrow> nat list \<Rightarrow> nat list" where
  "setUint32 offset v buffer =
     setBytes offset
       [v mod 256, v div 256 mod 256, v div 65536 mod 256, v div 16777216 mod 256] buffer"

definition writeString :: "nat \<Rightarrow> jsstring \<Rightarrow> nat list \<Rightarrow> nat list" where
  "writeString offset string buffer = setBytes offset (map (\<lambda>c. c mod 256) string) buffer"

text \<open>One sample: \<open>Math.floor(Math.max(-1.0, Math.min(1.0, x)) * 32767)\<close>.\<close>

definition sampleToInt16 :: "real \<Rightarrow> int" where
  "sampleToInt16 x = \<lfloor>max (- 1) (min 1 x) * 32767\<rfloor>"

text \<open>The two bytes of an element of the \<open>Int16Array\<close>: two's complement, low byte first.\<close>

definition int16Bytes :: "int \<Rightarrow> nat list" where
  "int16Bytes v = (let u = nat (v mod 65536) in [u mod 256, u div 256])"

definition writeWavFile :: "real list \<Rightarrow> nat \<Rightarrow> nat list" where
  "writeWavFile audioData sampleRate =
     (let numChannels = 1;
          bitsPerSample = 16;
          byteRate = sampleRate * numChannels * bitsPerSample div 8;
          blockAlign = numChannels * bitsPerSample div 8;
          dataSize = length audioData * 2;
          buffer = replicate (44 + dataSize) 0;
          buffer = writeString 0 (lit ''RIFF'') buffer;
          buffer = setUint32 4 (36 + dataSize) buffer;
          buffer = writeString 8 (lit ''WAVE'') buffer;
          buffer = writeString 12 (lit ''fmt '') buffer;
          buffer = setUint32 16 16 buffer;
          buffer = setUint16 20 1 buffer;
          buffer = setUint16 22 numChannels buffer;
          buffer = setUint32 24 sampleRate buffer;
          buffer = setUint32 28 byteRate buffer;
          buffer = setUint16 32 blockAlign buffer;
          buffer = setUint16 34 bitsPerSample buffer;
          buffer = writeString 36 (lit ''data'') buffer;
          buffer = setUint32 40 dataSize buffer;
          int16Data = map sampleToInt16 audioData
      in setBytes 44 (concat (map int16Bytes int16Data)) buffer)"

text \<open>Reading the file back, as a decoder of the container does.\<close>

definition getUint16 :: "nat list \<Rightarrow> nat \<Rightarrow> nat" where
  "getUint16 buffer offset = buffer ! offset + 256 * buffer ! (offset + 1)"

definition getUint32 :: "nat list \<Rightarrow> nat \<Rightarrow> nat" where
  "getUint32 buffer offset =
     buffer ! offset + 256 * buffer ! (offset + 1) + 65536 * buffer ! (offset + 2) +
     16777216 * buffer ! (offset + 3)"

definition getInt16 :: "nat list \<Rightarrow> nat \<Rightarrow> int" where
  "getInt16 buffer offset =
     (let u = int (getUint16 buffer offset) in if 32768 \<le> u then u - 65536 else u)"

text \<open>Truncation, as the specification words the conversion: the fraction is dropped.\<close>

definition truncateToInteger :: "real \<Rightarrow> int" where
  "truncateToInteger x = (if 0 \<le> x then \<lfloor>x\<rfloor> else \<lceil>x\<rceil>)"

section \<open>TextToSpeechWorker.sampleNoisyLatent\<close>

text \<open>
  The Box-Muller value of two draws of \<open>Math.random()\<close>, the first clamped from below.
\<close>

definition boxMuller :: "real \<Rightarrow> real \<Rightarrow> real" where
  "boxMuller r1 r2 =
     (let u1 = max 0.0001 r1; u2 = r2
      in sqrt (- 2 * ln u1) * cos (2 * pi * u2))"

text \<open>\<open>Math.floor(d * sampleRate)\<close>.\<close>

definition wavLengthOf :: "nat \<Rightarrow> real \<Rightarrow> int" where
  "wavLengthOf sampleRate d = \<lfloor>d * real sampleRate\<rfloor>"

text \<open>\<open>Math.floor((len + chunkSize - 1) / chunkSize)\<close> for a positive \<open>chunkSize\<close>.\<close>

definition latentLengthOf :: "nat \<Rightarrow> int \<Rightarrow> int" where
  "latentLengthOf chunkSize len = (len + int chunkSize - 1) div int chunkSize"

text \<open>
  \<open>random k\<close> is the value of the \<open>k\<close>-th call of \<open>Math.random()\<close> in this run of the
  function; the element \<open>(b, d, t)\<close> takes the two draws numbered from
  \<open>2 ((b latentDimVal + d) latentLen + t)\<close>.

  With no duration every loop is empty and both results are empty. Otherwise, a
  \<open>chunkSize\<close> of 0 makes \<open>latentLen\<close> infinite or NaN and a negative \<open>latentLen\<close> is an
  invalid length: in both cases the first typed array or, with no channel, the array of
  \<open>lengthToMask\<close> throws a \<open>RangeError\<close>.
\<close>

definition sampleNoisyLatent ::
  "(nat \<Rightarrow> real) \<Rightarrow> real list \<Rightarrow> nat \<Rightarrow> nat \<Rightarrow> nat \<Rightarrow> nat \<Rightarrow>
   error + real list list list \<times> real list list list" where
  "sampleNoisyLatent random duration sampleRate baseChunkSize chunkCompress latentDim =
     (let bsz = length duration
      in if bsz = 0 then Inr ([], [])
         else
           let maxDur = Max (set duration);
               wavLenMax = wavLengthOf sampleRate maxDur;
               wavLengths = map (wavLengthOf sampleRate) duration;
               chunkSize = baseChunkSize * chunkCompress;
               latentLen = latentLengthOf chunkSize wavLenMax;
               latentDimVal = latentDim * chunkCompress
           in if chunkSize = 0 \<or> latentLen < 0 then Inl RangeError
              else
                let noise = (\<lambda>b d t.
                      let k = (b * latentDimVal + d) * nat latentLen + t
                      in boxMuller (random (2 * k)) (random (2 * k + 1)));
                    latentLengths = map (latentLengthOf chunkSize) wavLengths
                in (case lengthToMask latentLengths (Some latentLen) of
                      Inl e \<Rightarrow> Inl e
                    | Inr latentMask \<Rightarrow>
                        Inr (map (\<lambda>b. map (\<lambda>d. map (\<lambda>t. noise b d t * latentMask ! b ! 0 ! t)
                                                 [0 ..< nat latentLen])
                                        [0 ..< latentDimVal])
                                [0 ..< bsz],
                             latentMask)))"


text \<open>A run of \<open>Math.random()\<close> that returns 0.5 at every call, for concrete evaluations.\<close>

definition halfDraws :: "nat \<Rightarrow> real" where
  "halfDraws k = 1 / 2"

section \<open>TextToSpeechWorker._infer\<close>

text \<open>
  An \<open>ort.Tensor\<close> is its data and its dimensions. An element of a \<open>Float32Array\<close> that
  holds the latent is a number or NaN (what a read past the end of the estimator's
  output stores).
\<close>

datatype 'a tensor = Tensor "'a list" "nat list"

fun dims :: "'a tensor \<Rightarrow> nat list" where
  "dims (Tensor values shape) = shape"

datatype float32 = Num real | NaN

record voiceStyle =
  ttl :: "real tensor"
  dp :: "real tensor"

text \<open>
  The named inputs of the four sessions, in the order the script writes them:
  \<open>text_ids, style_dp, text_mask\<close>; \<open>text_ids, style_ttl, text_mask\<close>;
  \<open>noisy_latent, text_emb, style_ttl, latent_mask, text_mask, current_step, total_step\<close>;
  \<open>latent\<close>.
\<close>

datatype feeds =
    PredictDuration "int tensor" "real tensor" "real tensor"
  | EncodeText "int tensor" "real tensor" "real tensor"
  | EstimateVector "float32 tensor" "real tensor" "real tensor" "real tensor" "real tensor"
      "real tensor" "real tensor"
  | Vocode "float32 tensor"

text \<open>
  What a run leaves behind, in order: the runs of the sessions with their inputs and
  what the progress callback reports.
\<close>

datatype 'p event = Run feeds | Progress 'p

record config =
  sample_rate :: nat
  base_chunk_size :: nat
  chunk_compress_factor :: nat
  latent_dim :: nat

text \<open>
  The worker: its configuration, the table of its text processor, the runtime's
  normalization, and the four sessions. A session maps its inputs to the data of the
  output the script reads (\<open>duration\<close>, \<open>text_emb\<close>, \<open>denoised_latent\<close>, \<open>wav_tts\<close>) or
  fails.
\<close>

record worker =
  cfgs :: config
  unicodeIndexer :: "int list"
  normalizeNFKD :: "jsstring \<Rightarrow> jsstring"
  dpOrt :: "feeds \<Rightarrow> error + real list"
  textEncOrt :: "feeds \<Rightarrow> error + real tensor"
  vectorEstOrt :: "feeds \<Rightarrow> error + float32 list"
  vocoderOrt :: "feeds \<Rightarrow> error + real list"

text \<open>
  The three nested loops that copy the latent into \<open>xtFlat\<close>. With fewer items than
  \<open>bsz\<close>, \<open>xt[b]\<close> is \<open>undefined\<close> and the first read throws, if there is one.
\<close>

definition flattenLatent ::
  "nat \<Rightarrow> nat \<Rightarrow> nat \<Rightarrow> float32 list list list \<Rightarrow> error + float32 list" where
  "flattenLatent bsz latentDim latentLen xt =
     (if length xt < bsz \<and> 0 < latentDim * latentLen then Inl TypeError
      else Inr (concat (map (\<lambda>b. concat (map (\<lambda>d. map (\<lambda>t. xt ! b ! d ! t) [0 ..< latentLen])
                                             [0 ..< latentDim]))
                          [0 ..< bsz])))"

text \<open>\<open>denoised[reshapeIdx]\<close> stored in a \<open>Float32Array\<close>: past the end it is NaN.\<close>

definition readFloat32 :: "float32 list \<Rightarrow> nat \<Rightarrow> float32" where
  "readFloat32 values i = (if i < length values then values ! i else NaN)"

text \<open>The three nested loops that copy the estimator's output back into the latent.\<close>

definition unflattenLatent ::
  "nat \<Rightarrow> nat \<Rightarrow> nat \<Rightarrow> float32 list \<Rightarrow> float32 list list list \<Rightarrow> float32 list list list" where
  "unflattenLatent bsz latentDim latentLen denoised xt =
     map (\<lambda>b. map (\<lambda>d. map (\<lambda>t. readFloat32 denoised ((b * latentDim + d) * latentLen + t))
                         [0 ..< latentLen])
                [0 ..< latentDim])
       [0 ..< min bsz (length xt)] @ drop bsz xt"

text \<open>
  The denoising loop from \<open>step\<close> on. \<open>progressCallback\<close> is \<open>None\<close> for \<open>null\<close>; a callback
  is what it reports when called. The result is what the loop leaves behind, and the
  latent or the error thrown.
\<close>

function denoise ::
  "worker \<Rightarrow> (nat \<Rightarrow> nat \<Rightarrow> 'p list) option \<Rightarrow> nat \<Rightarrow> nat \<Rightarrow> nat \<Rightarrow>
   real tensor \<Rightarrow> voiceStyle \<Rightarrow> real tensor \<Rightarrow> real tensor \<Rightarrow> nat \<Rightarrow>
   nat \<Rightarrow> float32 list list list \<Rightarrow> 'p event list \<times> (error + float32 list list list)" where
  "denoise w progressCallback bsz latentDim latentLen textEmb style latentMaskTensor
     textMaskTensor totalStep step xt =
     (if step < totalStep then
        let reported =
              (case progressCallback of
                 None \<Rightarrow> []
               | Some callback \<Rightarrow> map Progress (callback (step + 1) totalStep));
            currentStepTensor = Tensor (replicate bsz (real step)) [bsz];
            totalStepTensor = Tensor (replicate bsz (real totalStep)) [bsz]
        in (case flattenLatent bsz latentDim latentLen xt of
              Inl e \<Rightarrow> (reported, Inl e)
            | Inr xtFlat \<Rightarrow>
                let inputs = EstimateVector (Tensor xtFlat [bsz, latentDim, latentLen]) textEmb
                      (ttl style) latentMaskTensor textMaskTensor currentStepTensor
                      totalStepTensor
                in (case vectorEstOrt w inputs of
                      Inl e \<Rightarrow> (reported @ [Run inputs], Inl e)
                    | Inr denoised \<Rightarrow>
                        (case denoise w progressCallback bsz latentDim latentLen textEmb style
                                latentMaskTensor textMaskTensor totalStep (step + 1)
                                (unflattenLatent bsz latentDim latentLen denoised xt) of
                           (later, outcome) \<Rightarrow> (reported @ [Run inputs] @ later, outcome))))
      else ([], Inr xt))"
  by pat_completeness auto
termination
  by (relation "measure (\<lambda>(w, cb, bsz, ld, ll, te, st, lm, tm, totalStep, step, xt).
        totalStep - step)") auto

declare denoise.simps [simp del]

definition speedOrDefault :: "real option \<Rightarrow> real" where
  "speedOrDefault speedArg = (case speedArg of None \<Rightarrow> 1.05 | Some speed \<Rightarrow> speed)"

text \<open>
  After the loop: the latent is copied once more and given to the vocoder.
\<close>

definition vocode ::
  "worker \<Rightarrow> nat \<Rightarrow> nat \<Rightarrow> nat \<Rightarrow> float32 list list list \<Rightarrow> 'p event list \<times> (error + real list)" where
  "vocode w bsz latentDim latentLen xt =
     (case flattenLatent bsz latentDim latentLen xt of
        Inl e \<Rightarrow> ([], Inl e)
      | Inr xtFlat \<Rightarrow>
          let inputs = Vocode (Tensor xtFlat [bsz, latentDim, latentLen])
          in (case vocoderOrt w inputs of
                Inl e \<Rightarrow> ([Run inputs], Inl e)
              | Inr wav \<Rightarrow> ([Run inputs], Inr wav)))"

text \<open>
  From the sampled latent on: \<open>latentMask[0][0].length\<close>, \<open>xt[0].length\<close> and \<open>xt[0][0].length\<close>
  throw when there is no item or no channel; then the loop and the vocoder.
\<close>

definition generate ::
  "worker \<Rightarrow> (nat \<Rightarrow> nat \<Rightarrow> 'p list) option \<Rightarrow> nat \<Rightarrow> real tensor \<Rightarrow> voiceStyle \<Rightarrow>
   real tensor \<Rightarrow> nat \<Rightarrow> real list list list \<Rightarrow> real list list list \<Rightarrow>
   'p event list \<times> (error + real list)" where
  "generate w progressCallback bsz textEmb style textMaskTensor totalStep xt latentMask =
     (case (latentMask, xt) of
        ([row0] # _, (r0 # _) # _) \<Rightarrow>
          let latentMaskTensor = Tensor (concat (map concat latentMask)) [bsz, 1, length row0];
              latentDim = length (xt ! 0);
              latentLen = length r0
          in (case denoise w progressCallback bsz latentDim latentLen textEmb style
                     latentMaskTensor textMaskTensor totalStep 0 (map (map (map Num)) xt) of
                (steps, Inl e) \<Rightarrow> (steps, Inl e)
              | (steps, Inr denoised) \<Rightarrow>
                  (case vocode w bsz latentDim latentLen denoised of
                     (final, outcome) \<Rightarrow> (steps @ final, outcome)))
      | _ \<Rightarrow> ([], Inl TypeError))"

text \<open>
  \<open>_infer(textList, style, totalStep, speed = 1.05, progressCallback = null)\<close>. \<open>random\<close> is
  the run of \<open>Math.random()\<close> during the call. With no text, \<open>textIds[0]\<close> is \<open>undefined\<close> and
  the read of its length throws. Dividing by a \<open>speed\<close> of 0 gives infinite or NaN
  durations, for which the sampler throws a \<open>RangeError\<close> (its latent length is then
  infinite or NaN); the division of the model is not used there. The result is the
  waveform and the scaled durations.
\<close>

definition infer ::
  "worker \<Rightarrow> (nat \<Rightarrow> real) \<Rightarrow> jsstring list \<Rightarrow> voiceStyle \<Rightarrow> nat \<Rightarrow> real option \<Rightarrow>
   (nat \<Rightarrow> nat \<Rightarrow> 'p list) option \<Rightarrow> 'p event list \<times> (error + real list \<times> real list)" where
  "infer w random textList style totalStep speedArg progressCallback =
     (let speed = speedOrDefault speedArg;
          bsz = length textList
      in case UnicodeProcessor_call (unicodeIndexer w) (normalizeNFKD w) textList of
           Inl e \<Rightarrow> ([], Inl e)
         | Inr batch \<Rightarrow>
             (case (textIds batch, textMask batch) of
                (ids0 # _, [mask0] # _) \<Rightarrow>
                  let textLen = length ids0;
                      textIdsTensor = Tensor (concat (textIds batch)) [bsz, textLen];
                      textMaskTensor =
                        Tensor (concat (map concat (textMask batch))) [bsz, 1, length mask0];
                      dpInputs = PredictDuration textIdsTensor (dp style) textMaskTensor;
                      textEncInputs = EncodeText textIdsTensor (ttl style) textMaskTensor
                  in (case dpOrt w dpInputs of
                        Inl e \<Rightarrow> ([Run dpInputs], Inl e)
                      | Inr predicted \<Rightarrow>
                          (case textEncOrt w textEncInputs of
                             Inl e \<Rightarrow> ([Run dpInputs, Run textEncInputs], Inl e)
                           | Inr textEmb \<Rightarrow>
                               if speed = 0 \<and> predicted \<noteq> []
                               then ([Run dpInputs, Run textEncInputs], Inl RangeError)
                               else
                                 let duration = map (\<lambda>d. d / speed) predicted
                                 in (case sampleNoisyLatent random duration
                                            (sample_rate (cfgs w)) (base_chunk_size (cfgs w))
                                            (chunk_compress_factor (cfgs w))
                                            (latent_dim (cfgs w)) of
                                       Inl e \<Rightarrow> ([Run dpInputs, Run textEncInputs], Inl e)
                                     | Inr (xt, latentMask) \<Rightarrow>
                                         (case generate w progressCallback bsz textEmb style
                                                 textMaskTensor totalStep xt latentMask of
                                            (later, Inl e) \<Rightarrow>
                                              (Run dpInputs # Run textEncInputs # later, Inl e)
                                          | (later, Inr wav) \<Rightarrow>
                                              (Run dpInputs # Run textEncInputs # later,
                                               Inr (wav, duration))))))
              | _ \<Rightarrow> ([], Inl TypeError)))"

section \<open>TextToSpeechWorker.call\<close>

text \<open>
  What the caller's progress callback receives:
  \<open>(step, total, chunkIndex, totalChunks, overallProgress)\<close>, in this order.
\<close>

datatype report = Report nat nat nat nat real

text \<open>
  The callback \<open>call\<close> gives to \<open>_infer\<close> for one chunk (lines 269 to 277), with the
  \<open>processedChunks\<close> and \<open>totalChunks\<close> it captures. \<open>hasCallback\<close> says whether the caller
  gave a callback; the caller's callback is taken to do nothing but receive the report.
\<close>

definition reportProgress :: "bool \<Rightarrow> nat \<Rightarrow> nat \<Rightarrow> nat \<Rightarrow> nat \<Rightarrow> report list" where
  "reportProgress hasCallback processedChunks totalChunks step totalSteps =
     (if hasCallback then
        let chunkProgress = real processedChunks / real totalChunks;
            stepProgress = real step / real totalSteps / real totalChunks;
            overallProgress = chunkProgress + stepProgress
        in [Report step totalSteps (processedChunks + 1) totalChunks overallProgress]
      else [])"

text \<open>
  The new \<open>Float32Array\<close> of a later chunk: \<open>wavCat\<close>, then \<open>silenceLen\<close> zeros, then \<open>wav\<close>.
  The constructor throws on a negative length, and \<open>set\<close> throws when its source does
  not fit or its offset is negative; with a negative \<open>silenceLen\<close> that fits, \<open>wav\<close>
  overwrites the end of \<open>wavCat\<close>.
\<close>

definition concatWithSilence :: "real list \<Rightarrow> int \<Rightarrow> real list \<Rightarrow> error + real list" where
  "concatWithSilence wavCat silenceLen wav =
     (let newLength = int (length wavCat) + silenceLen + int (length wav);
          offset = int (length wavCat) + silenceLen
      in if newLength < 0 \<or> newLength < int (length wavCat) \<or> offset < 0 then Inl RangeError
         else Inr (take (nat offset) (wavCat @ replicate (nat newLength - length wavCat) 0) @ wav))"

definition silenceOrDefault :: "real option \<Rightarrow> real" where
  "silenceOrDefault silenceArg = (case silenceArg of None \<Rightarrow> 0.3 | Some s \<Rightarrow> s)"

text \<open>
  The loop over the chunks. \<open>randoms i\<close> is the run of \<open>Math.random()\<close> during chunk \<open>i\<close>.
  The state is \<open>(wavCat, durCat)\<close>, with \<open>None\<close> for the \<open>null\<close> of \<open>wavCat\<close>. \<open>_infer\<close> returns
  a duration for its one text whenever it returns (see \<open>infer_duration_nonempty\<close>), so
  \<open>duration[0]\<close> is defined.
\<close>

fun chunkLoop ::
  "worker \<Rightarrow> (nat \<Rightarrow> nat \<Rightarrow> real) \<Rightarrow> voiceStyle \<Rightarrow> nat \<Rightarrow> real option \<Rightarrow> real \<Rightarrow> bool \<Rightarrow>
   nat \<Rightarrow> jsstring list \<Rightarrow> nat \<Rightarrow> real list option \<times> real \<Rightarrow>
   report event list \<times> (error + real list option \<times> real)" where
  "chunkLoop w randoms style totalStep speedArg silenceDuration hasCallback totalChunks []
     processedChunks state = ([], Inr state)"
| "chunkLoop w randoms style totalStep speedArg silenceDuration hasCallback totalChunks
     (chunk # rest) processedChunks state =
     (case infer w (randoms processedChunks) [chunk] style totalStep speedArg
             (Some (reportProgress hasCallback processedChunks totalChunks)) of
        (events, Inl e) \<Rightarrow> (events, Inl e)
      | (events, Inr (wav, [])) \<Rightarrow> (events, Inl TypeError)
      | (events, Inr (wav, d0 # ds)) \<Rightarrow>
          (case (case state of
                   (None, durCat) \<Rightarrow> Inr (Some wav, d0)
                 | (Some wavCat, durCat) \<Rightarrow>
                     (case concatWithSilence wavCat
                             \<lfloor>silenceDuration * real (sample_rate (cfgs w))\<rfloor> wav of
                        Inl e \<Rightarrow> Inl e
                      | Inr newWav \<Rightarrow> Inr (Some newWav, durCat + (d0 + silenceDuration)))) of
             Inl e \<Rightarrow> (events, Inl e)
           | Inr state' \<Rightarrow>
               (case chunkLoop w randoms style totalStep speedArg silenceDuration hasCallback
                       totalChunks rest (processedChunks + 1) state' of
                  (later, outcome) \<Rightarrow> (events @ later, outcome))))"

text \<open>
  \<open>call(text, style, totalStep, speed = 1.05, silenceDuration = 0.3, progressCallback =
  null)\<close>: the events it leaves behind, and \<open>{wav, duration}\<close> or the error thrown.
\<close>

definition call ::
  "worker \<Rightarrow> (nat \<Rightarrow> nat \<Rightarrow> real) \<Rightarrow> jsvalue \<Rightarrow> voiceStyle \<Rightarrow> nat \<Rightarrow> real option \<Rightarrow>
   real option \<Rightarrow> bool \<Rightarrow> report event list \<times> (error + real list \<times> real list)" where
  "call w randoms text style totalStep speedArg silenceArg hasCallback =
     (if (case dims (ttl style) of [] \<Rightarrow> True | d0 # ds \<Rightarrow> d0 \<noteq> 1)
      then ([], Inl SingleStyleError)
      else
        (case chunkText text None of
           Inl e \<Rightarrow> ([], Inl e)
         | Inr textList \<Rightarrow>
             (case chunkLoop w randoms style totalStep speedArg (silenceOrDefault silenceArg)
                     hasCallback (length textList) textList 0 (None, 0) of
                (events, Inl e) \<Rightarrow> (events, Inl e)
              | (events, Inr (wavCat, durCat)) \<Rightarrow>
                  (events, Inr (case wavCat of None \<Rightarrow> [] | Some wav \<Rightarrow> wav, [durCat])))))"



section \<open>Reading the events of a run\<close>

text \<open>
  What the claims about the denoising loop speak of, read off the events of a run: the
  reports of the progress callback and the estimator's runs with their \<open>current_step\<close>
  and \<open>total_step\<close>, in order.
\<close>

datatype 'p mark = Reported 'p | Stepped "real tensor" "real tensor"

fun marksOf :: "'p event \<Rightarrow> 'p mark list" where
  "marksOf (Progress p) = [Reported p]"
| "marksOf (Run (EstimateVector noisy emb style_ttl lm tm current_step total_step)) =
     [Stepped current_step total_step]"
| "marksOf (Run inputs) = []"

definition marks :: "'p event list \<Rightarrow> 'p mark list" where
  "marks events = concat (map marksOf events)"

fun estimatorRunOf :: "'p event \<Rightarrow> feeds list" where
  "estimatorRunOf (Run (EstimateVector noisy emb style_ttl lm tm current_step total_step)) =
     [EstimateVector noisy emb style_ttl lm tm current_step total_step]"
| "estimatorRunOf e = []"

definition estimatorRuns :: "'p event list \<Rightarrow> feeds list" where
  "estimatorRuns events = concat (map estimatorRunOf events)"

fun vocoderRunOf :: "'p event \<Rightarrow> float32 tensor list" where
  "vocoderRunOf (Run (Vocode latent)) = [latent]"
| "vocoderRunOf e = []"

definition vocoderRuns :: "'p event list \<Rightarrow> float32 tensor list" where
  "vocoderRuns events = concat (map vocoderRunOf events)"

fun reportOf :: "'p event \<Rightarrow> 'p list" where
  "reportOf (Progress p) = [p]"
| "reportOf e = []"

definition reports :: "'p event list \<Rightarrow> 'p list" where
  "reports events = concat (map reportOf events)"

text \<open>
  The first \<open>n\<close> elements of a returned tensor as the copy loop reads them (NaN past its
  end); for a tensor of \<open>n\<close> elements, the tensor itself.
\<close>

definition resizeFloat32 :: "nat \<Rightarrow> float32 list \<Rightarrow> float32 list" where
  "resizeFloat32 n values = map (readFloat32 values) [0 ..< n]"


text \<open>
  What the loop's callback reports at a step (nothing without a callback), and the
  inputs the loop gives to the estimator at a step.
\<close>

definition reported :: "(nat \<Rightarrow> nat \<Rightarrow> 'p list) option \<Rightarrow> nat \<Rightarrow> nat \<Rightarrow> 'p list" where
  "reported progressCallback step totalStep =
     (case progressCallback of None \<Rightarrow> [] | Some callback \<Rightarrow> callback (step + 1) totalStep)"

definition estimatorInputs ::
  "nat \<Rightarrow> nat \<Rightarrow> nat \<Rightarrow> real tensor \<Rightarrow> voiceStyle \<Rightarrow> real tensor \<Rightarrow> real tensor \<Rightarrow> nat \<Rightarrow> nat \<Rightarrow>
   float32 list \<Rightarrow> feeds" where
  "estimatorInputs bsz latentDim latentLen textEmb style lm tm totalStep step xtFlat =
     EstimateVector (Tensor xtFlat [bsz, latentDim, latentLen]) textEmb (ttl style) lm tm
       (Tensor (replicate bsz (real step)) [bsz]) (Tensor (replicate bsz (real totalStep)) [bsz])"


text \<open>
  The runs of the duration predictor among the events, and the first duration such a
  run predicts (the one \<open>call\<close> reads, for its single text).
\<close>

fun durationRunOf :: "'p event \<Rightarrow> feeds list" where
  "durationRunOf (Run (PredictDuration text_ids style_dp text_mask)) =
     [PredictDuration text_ids style_dp text_mask]"
| "durationRunOf e = []"

definition durationRuns :: "'p event list \<Rightarrow> feeds list" where
  "durationRuns events = concat (map durationRunOf events)"

definition firstPredicted :: "worker \<Rightarrow> feeds \<Rightarrow> real" where
  "firstPredicted w inputs = (case dpOrt w inputs of Inr (d # ds) \<Rightarrow> d | _ \<Rightarrow> 0)"

text \<open>The draws of the concrete runs: 0.5 at every call, in every chunk.\<close>

definition toyRandoms :: "nat \<Rightarrow> nat \<Rightarrow> real" where
  "toyRandoms chunk = halfDraws"

section \<open>Properties of the text processor\<close>

lemmas preprocess_defs = preprocessText_def preprocessBody_def replaceEach_def
  CHAR_REPLACEMENTS_def EXPR_REPLACEMENTS_def DUPLICATE_QUOTES_def replaceAll_def
  startsWith_def EMOJI_PATTERN_def inRange_def isHighSurrogate_def isLowSurrogate_def
  surrogatePair_def DIACRITICS_PATTERN_def SPECIAL_SYMBOLS_PATTERN_def spacedPunctuation_def
  isWhitespace_def trim_def trimStart_def ENDING_PUNCTUATION_def
  ENDING_PUNCTUATION_PATTERN_def collapseDuplicate.simps nfkdOfNormalized_def

subsection \<open>The duplicate-quote loop returns\<close>

lemma startsWith_length:
  assumes "startsWith p s"
  shows "length p \<le> length s"
proof -
  have "length (take (length p) s) = length p"
    using assms by (simp add: startsWith_def)
  then show ?thesis by simp
qed

lemma replaceFirst_length:
  "stringIncludes p s \<Longrightarrow> length (replaceFirst p r s) + length p = length s + length r"
proof (induction s)
  case Nil
  then show ?case by simp
next
  case (Cons c cs)
  show ?case
  proof (cases "startsWith p (c # cs)")
    case True
    then show ?thesis using startsWith_length [OF True] by simp
  next
    case False
    then show ?thesis using Cons by simp
  qed
qed

lemma collapseDuplicate_returns:
  assumes "length r < length p"
  shows "\<exists>y. collapseDuplicate p r s = Some y"
proof (induction "length s" arbitrary: s rule: less_induct)
  case less
  show ?case
  proof (cases "stringIncludes p s")
    case True
    have "length (replaceFirst p r s) < length s"
      using replaceFirst_length [OF True, of r] assms by linarith
    from less [OF this] obtain y where "collapseDuplicate p r (replaceFirst p r s) = Some y"
      by blast
    then show ?thesis using True by (subst collapseDuplicate.simps) simp
  next
    case False
    then show ?thesis by (subst collapseDuplicate.simps) simp
  qed
qed

lemma collapseDuplicates_returns: "\<exists>y. collapseDuplicates DUPLICATE_QUOTES s = Some y"
proof -
  obtain a where a: "collapseDuplicate [0x22, 0x22] [0x22] s = Some a"
    using collapseDuplicate_returns [of "[0x22]" "[0x22, 0x22]" s] by auto
  obtain b where b: "collapseDuplicate [0x27, 0x27] [0x27] a = Some b"
    using collapseDuplicate_returns [of "[0x27]" "[0x27, 0x27]" a] by auto
  obtain c where c: "collapseDuplicate [0x60, 0x60] [0x60] b = Some c"
    using collapseDuplicate_returns [of "[0x60]" "[0x60, 0x60]" b] by auto
  show ?thesis by (simp add: DUPLICATE_QUOTES_def a b c)
qed

lemma preprocessBody_returns: "\<exists>body. preprocessBody nfkd text = Some body"
proof -
  let ?t = "removeSpaceBeforePunctuation (replaceEach EXPR_REPLACEMENTS
      (filter (\<lambda>c. \<not> SPECIAL_SYMBOLS_PATTERN c) (filter (\<lambda>c. \<not> DIACRITICS_PATTERN c)
        (replaceEach CHAR_REPLACEMENTS (removeEmoji (nfkd text))))))"
  obtain y where "collapseDuplicates DUPLICATE_QUOTES ?t = Some y"
    using collapseDuplicates_returns by blast
  then show ?thesis by (simp add: preprocessBody_def Let_def)
qed

text \<open>
  Claim C8. The normalization returns on every string (its one loop ends), its result is
  the trimmed text with a period appended exactly when that text does not end in one of
  the terminal punctuation marks, so the result is never empty and always ends in such a
  mark; text that is empty after the trim gives just a period.
\<close>

theorem preprocessText_ends_with_punctuation:
  "\<exists>body result.
     preprocessBody nfkd text = Some body \<and>
     preprocessText nfkd text = Some result \<and>
     result = (if ENDING_PUNCTUATION_PATTERN body then body else body @ lit ''.'') \<and>
     result \<noteq> [] \<and> last result \<in> set ENDING_PUNCTUATION \<and>
     (body = [] \<longrightarrow> result = lit ''.'')"
proof -
  obtain body where body: "preprocessBody nfkd text = Some body"
    using preprocessBody_returns by blast
  let ?result = "if ENDING_PUNCTUATION_PATTERN body then body else body @ lit ''.''"
  have 1: "preprocessText nfkd text = Some ?result"
    by (simp add: preprocessText_def body)
  have 2: "?result \<noteq> []"
    by (simp add: ENDING_PUNCTUATION_PATTERN_def)
  have 3: "last ?result \<in> set ENDING_PUNCTUATION"
    by (simp add: ENDING_PUNCTUATION_PATTERN_def) (simp add: ENDING_PUNCTUATION_def)
  have 4: "body = [] \<longrightarrow> ?result = lit ''.''"
    by (simp add: ENDING_PUNCTUATION_PATTERN_def)
  from body 1 2 3 4 show ?thesis by blast
qed

theorem preprocessText_ends_with_punctuation_witness:
  "preprocessBody nfkdOfNormalized (lit ''  '') = Some [] \<and>
   preprocessText nfkdOfNormalized (lit ''  '') = Some (lit ''.'') \<and>
   preprocessText nfkdOfNormalized (lit ''Hi  there'') = Some (lit ''Hi there.'') \<and>
   preprocessText nfkdOfNormalized (lit ''Why?'') = Some (lit ''Why?'')"
proof -
  have a: "preprocessBody nfkdOfNormalized (lit ''  '') = Some []"
    by (simp add: preprocess_defs)
  have b: "preprocessText nfkdOfNormalized (lit ''Hi  there'') = Some (lit ''Hi there.'')"
    by (simp add: preprocess_defs)
  have c: "preprocessText nfkdOfNormalized (lit ''Why?'') = Some (lit ''Why?'')"
    by (simp add: preprocess_defs)
  from preprocessText_ends_with_punctuation [of nfkdOfNormalized "lit ''  ''"] a
  have "preprocessText nfkdOfNormalized (lit ''  '') = Some (lit ''.'')"
    by auto
  with a b c show ?thesis by blast
qed

text \<open>
  Claim C1, as stated, fails: two spaces before a period lose one space in the first
  pass (the space before punctuation is removed before runs of whitespace are
  collapsed) and the other in the second pass.
\<close>

theorem preprocessText_not_idempotent:
  "preprocessText nfkdOfNormalized (lit ''a  .'') = Some (lit ''a .'') \<and>
   preprocessText nfkdOfNormalized (lit ''a .'') = Some (lit ''a.'') \<and>
   lit ''a .'' \<noteq> lit ''a.''"
  by (simp add: preprocess_defs)

section \<open>Properties of the token encoder\<close>

lemmas encode_defs = UnicodeProcessor_call_def getTextMask_def lengthToMask_def maskRow_def
  encodeRow_def codePointAt_def indexerId_def

text \<open>
  Claim C4 at a string with a code point outside the Basic Multilingual Plane: U+20000
  is the surrogate pair D840 DC00, no normalization step changes it and a period is
  appended. The string has two code points, but the row has three ids (the pair's code
  point, then the low surrogate read again on its own, then the period) and the mask has
  three ones: lengths and indices are UTF-16 code units.
\<close>

theorem UnicodeProcessor_call_counts_code_units:
  "UnicodeProcessor_call indexer nfkdOfNormalized [[0xD840, 0xDC00]] =
     Inr \<lparr>textIds = [[indexerId indexer 0x20000, indexerId indexer 0xDC00,
                        indexerId indexer 0x2E]],
          textMask = [[[1, 1, 1]]]\<rparr> \<and>
   preprocessText nfkdOfNormalized [0xD840, 0xDC00] = Some [0xD840, 0xDC00, 0x2E] \<and>
   codePointsOf [0xD840, 0xDC00, 0x2E] = [0x20000, 0x2E]"
proof -
  have p: "preprocessText nfkdOfNormalized [0xD840, 0xDC00] = Some [0xD840, 0xDC00, 0x2E]"
    by (simp add: preprocess_defs)
  have c: "codePointsOf [0xD840, 0xDC00, 0x2E] = [0x20000, 0x2E]"
    by (simp add: isHighSurrogate_def isLowSurrogate_def inRange_def surrogatePair_def)
  have u: "UnicodeProcessor_call indexer nfkdOfNormalized [[0xD840, 0xDC00]] =
     Inr \<lparr>textIds = [[indexerId indexer 0x20000, indexerId indexer 0xDC00,
                        indexerId indexer 0x2E]],
          textMask = [[[1, 1, 1]]]\<rparr>"
    by (simp add: UnicodeProcessor_call_def p getTextMask_def lengthToMask_def maskRow_def
        encodeRow_def codePointAt_def isHighSurrogate_def isLowSurrogate_def inRange_def
        surrogatePair_def upt_conv_Cons numeral_3_eq_3)
  from u p c show ?thesis by blast
qed

section \<open>Properties of the chunker\<close>

subsection \<open>Trimming\<close>

lemma length_trimEnd_le: "length (trimEnd s) \<le> length s"
  by (induction s) (auto split: list.splits)

lemma length_trim_le: "length (trim s) \<le> length s"
  unfolding trim_def trimStart_def
  using length_dropWhile_le [of isWhitespace "trimEnd s"] length_trimEnd_le [of s]
  by linarith

lemma trimEnd_last: "trimEnd s \<noteq> [] \<Longrightarrow> \<not> isWhitespace (last (trimEnd s))"
  by (induction s) (auto split: if_splits list.splits)

lemma last_dropWhile: "dropWhile P xs \<noteq> [] \<Longrightarrow> last (dropWhile P xs) = last xs"
  by (induction xs) (auto split: if_splits)

lemma trim_ends:
  assumes "trim s \<noteq> []"
  shows "\<not> isWhitespace (hd (trim s))" and "\<not> isWhitespace (last (trim s))"
proof -
  show "\<not> isWhitespace (hd (trim s))"
    using assms unfolding trim_def trimStart_def by (simp add: hd_dropWhile)
  have ne: "trimEnd s \<noteq> []"
    using assms unfolding trim_def trimStart_def by auto
  have "last (trim s) = last (trimEnd s)"
    using assms unfolding trim_def trimStart_def by (simp add: last_dropWhile)
  then show "\<not> isWhitespace (last (trim s))"
    using trimEnd_last [OF ne] by simp
qed

subsection \<open>No sentence of a trimmed paragraph is empty\<close>

lemma sentenceBreakAt_Suc:
  assumes "sentenceBreakAt b (c # cs) = Suc n"
  shows "isWhitespace c" and "drop n cs = dropWhile isWhitespace cs"
proof -
  have len: "length (takeWhile isWhitespace (c # cs)) = Suc n"
    using assms by (auto simp: sentenceBreakAt_def split: if_splits)
  then show c: "isWhitespace c"
    by (auto split: if_splits)
  with len have "length (takeWhile isWhitespace cs) = n" by simp
  then show "drop n cs = dropWhile isWhitespace cs"
    by (simp add: dropWhile_eq_drop)
qed

lemma splitBy_sentence_nonempty:
  assumes "s = [] \<longrightarrow> piece \<noteq> []"
    and "s \<noteq> [] \<longrightarrow> \<not> isWhitespace (last s)"
    and "piece = [] \<longrightarrow> \<not> isWhitespace (hd s)"
  shows "[] \<notin> set (splitBy sentenceBreakAt b piece s)"
  using assms
proof (induction sentenceBreakAt b piece s rule: splitBy.induct)
  case (1 behind piece)
  then show ?case by simp
next
  case (2 behind piece c cs)
  show ?case
  proof (cases "sentenceBreakAt behind (c # cs)")
    case 0
    have "cs \<noteq> [] \<longrightarrow> \<not> isWhitespace (last cs)"
      using 2(4) by auto
    then have "[] \<notin> set (splitBy sentenceBreakAt (c # behind) (c # piece) cs)"
      using 2(1) [OF 0] by simp
    then show ?thesis using 0 by simp
  next
    case (Suc n)
    note ws = sentenceBreakAt_Suc [OF Suc]
    have piece: "piece \<noteq> []"
      using 2(5) ws(1) by auto
    have notall: "dropWhile isWhitespace cs \<noteq> []"
    proof
      assume "dropWhile isWhitespace cs = []"
      then have "\<forall>x\<in>set cs. isWhitespace x" by (simp add: dropWhile_eq_Nil_conv)
      then have "isWhitespace (last (c # cs))" using ws(1) by auto
      then show False using 2(4) by simp
    qed
    then have cs: "cs \<noteq> []" by auto
    have l: "last (dropWhile isWhitespace cs) = last (c # cs)"
      using last_dropWhile [OF notall] cs by simp
    have "[] \<notin> set (splitBy sentenceBreakAt (rev (take n cs) @ c # behind) [] (drop n cs))"
      using 2(2) [OF Suc] notall l 2(4) ws(2) by (simp add: hd_dropWhile)
    then show ?thesis using Suc piece by simp
  qed
qed

lemma sentencesOf_trim_nonempty:
  assumes "trim p \<noteq> []"
  shows "[] \<notin> set (sentencesOf (trim p))"
  unfolding sentencesOf_def split_def
  using splitBy_sentence_nonempty [of "trim p" "[]" "[]"] trim_ends [OF assms] assms
  by simp


subsection \<open>The loop over the sentences builds the greedy groups\<close>

lemma joinSentences_snoc:
  "g \<noteq> [] \<Longrightarrow> joinSentences (g @ [s]) = joinSentences g @ lit '' '' @ s"
  by (induction g rule: joinSentences.induct) auto

lemma joinSentences_Nil_iff: "[] \<notin> set g \<Longrightarrow> joinSentences g = [] \<longleftrightarrow> g = []"
  by (induction g rule: joinSentences.induct) auto

lemma loop_greedyGroups:
  assumes "[] \<notin> set g" and "[] \<notin> set ss"
  shows "pushLast (foldl (addSentence m) (chunks, joinSentences g) ss) =
         chunks @ map (\<lambda>g. trim (joinSentences g)) (greedyGroups m g ss)"
  using assms
proof (induction ss arbitrary: chunks g)
  case Nil
  then show ?case
    by (simp add: pushLast_def joinSentences_Nil_iff)
next
  case (Cons s ss)
  have s: "s \<noteq> []" and ss: "[] \<notin> set ss" using Cons.prems(2) by auto
  have gs: "[] \<notin> set (g @ [s])" using Cons.prems(1) s by auto
  have one: "[] \<notin> set [s]" using s by auto
  show ?case
  proof (cases "int (length (joinSentences g)) + int (length s) + 1 \<le> m")
    case True
    have "addSentence m (chunks, joinSentences g) s = (chunks, joinSentences (g @ [s]))"
      using True Cons.prems(1)
      by (cases "g = []") (simp_all add: addSentence_def joinSentences_snoc joinSentences_Nil_iff)
    then show ?thesis
      using True Cons.IH [OF gs ss, of chunks] by simp
  next
    case False
    show ?thesis
    proof (cases "g = []")
      case True
      have "addSentence m (chunks, joinSentences g) s = (chunks, joinSentences [s])"
        using False True by (simp add: addSentence_def)
      then show ?thesis
        using True Cons.IH [OF one ss, of chunks] by simp
    next
      case nonempty: False
      have "addSentence m (chunks, joinSentences g) s =
              (chunks @ [trim (joinSentences g)], joinSentences [s])"
        using False nonempty Cons.prems(1) by (simp add: addSentence_def joinSentences_Nil_iff)
      then show ?thesis
        using False nonempty Cons.IH [OF one ss, of "chunks @ [trim (joinSentences g)]"] by simp
    qed
  qed
qed

lemma concat_greedyGroups: "concat (greedyGroups m g ss) = g @ ss"
  by (induction ss arbitrary: g) auto

lemma greedyGroups_no_empty_group: "[] \<notin> set (greedyGroups m g ss)"
  by (induction ss arbitrary: g) auto

lemma greedyGroups_bounded:
  assumes "g = [] \<or> int (length (joinSentences g)) \<le> m \<or> length g = 1"
    and "h \<in> set (greedyGroups m g ss)"
  shows "int (length (joinSentences h)) \<le> m \<or> length h = 1"
  using assms
proof (induction ss arbitrary: g)
  case Nil
  then show ?case by (auto split: if_splits)
next
  case (Cons s ss)
  show ?case
  proof (cases "g \<noteq> [] \<and> m < int (length (joinSentences g)) + int (length s) + 1")
    case True
    then have "h = g \<or> h \<in> set (greedyGroups m [s] ss)"
      using Cons.prems(2) by auto
    then show ?thesis
    proof
      assume "h = g"
      then show ?thesis using Cons.prems(1) True by auto
    next
      assume "h \<in> set (greedyGroups m [s] ss)"
      then show ?thesis using Cons.IH [of "[s]"] by simp
    qed
  next
    case False
    then have h: "h \<in> set (greedyGroups m (g @ [s]) ss)"
      using Cons.prems(2) by auto
    have "g @ [s] = [] \<or> int (length (joinSentences (g @ [s]))) \<le> m \<or> length (g @ [s]) = 1"
    proof (cases "g = []")
      case True
      then show ?thesis by simp
    next
      case nonempty: False
      then have "int (length (joinSentences g)) + int (length s) + 1 \<le> m"
        using False by auto
      then show ?thesis using nonempty by (simp add: joinSentences_snoc)
    qed
    then show ?thesis using Cons.IH [OF _ h] by blast
  qed
qed

lemma greedyGroups_first:
  "g \<noteq> [] \<Longrightarrow> \<exists>h gs. greedyGroups m g ss = h # gs \<and> hd h = hd g"
proof (induction ss arbitrary: g)
  case Nil
  then show ?case by simp
next
  case (Cons s ss)
  show ?case
  proof (cases "m < int (length (joinSentences g)) + int (length s) + 1")
    case True
    then show ?thesis using Cons.prems by simp
  next
    case False
    obtain h gs where "greedyGroups m (g @ [s]) ss = h # gs" and "hd h = hd (g @ [s])"
      using Cons.IH [of "g @ [s]"] by auto
    then show ?thesis using False Cons.prems by simp
  qed
qed

lemma greedyBreaks_greedyGroups: "greedyBreaks m (greedyGroups m g ss)"
proof (induction ss arbitrary: g)
  case Nil
  then show ?case by simp
next
  case (Cons s ss)
  show ?case
  proof (cases "g \<noteq> [] \<and> m < int (length (joinSentences g)) + int (length s) + 1")
    case True
    obtain h gs where hg: "greedyGroups m [s] ss = h # gs" and hd: "hd h = s"
      using greedyGroups_first [of "[s]" m ss] by auto
    have "greedyBreaks m (h # gs)"
      using Cons.IH [of "[s]"] hg by simp
    then show ?thesis using True hg hd by simp
  next
    case False
    then show ?thesis using Cons.IH [of "g @ [s]"] by auto
  qed
qed

lemma paragraphChunks_greedyGroups:
  assumes "trim p \<noteq> []"
  shows "paragraphChunks m p =
         map (\<lambda>g. trim (joinSentences g)) (greedyGroups m [] (sentencesOf (trim p)))"
proof -
  have "paragraphChunks m p = pushLast (foldl (addSentence m) ([], []) (sentencesOf (trim p)))"
    using assms by (simp add: paragraphChunks_def Let_def)
  also have "\<dots> = map (\<lambda>g. trim (joinSentences g)) (greedyGroups m [] (sentencesOf (trim p)))"
    using loop_greedyGroups [of "[]" "sentencesOf (trim p)" m "[]"]
      sentencesOf_trim_nonempty [OF assms] by simp
  finally show ?thesis .
qed

lemma paragraphsOf_trim: "p \<in> set (paragraphsOf s) \<Longrightarrow> trim p \<noteq> []"
  by (simp add: paragraphsOf_def)


text \<open>
  Claim C3. The chunks of a text are, paragraph by paragraph and in order, groups of whole
  consecutive sentences (as the sentence pattern splits the trimmed paragraph), each
  group joined by single spaces and trimmed. No sentence is empty, dropped or split. A
  group whose joined length exceeds \<open>maxLen\<close> is a single sentence, and each group ends
  where adding the first sentence of the next group and a space would exceed \<open>maxLen\<close>.
  So a chunk is at most \<open>maxLen\<close> long unless it is one sentence that is longer by itself.
\<close>

theorem chunkText_greedy_chunks:
  "\<exists>groupsOf.
     chunkText (JSString s) maxLenArg =
       Inr (concat (map (\<lambda>p. map (\<lambda>g. trim (joinSentences g)) (groupsOf p)) (paragraphsOf s))) \<and>
     (\<forall>p \<in> set (paragraphsOf s).
        concat (groupsOf p) = sentencesOf (trim p) \<and>
        [] \<notin> set (groupsOf p) \<and> [] \<notin> set (sentencesOf (trim p)) \<and>
        (\<forall>g \<in> set (groupsOf p).
           int (length (joinSentences g)) \<le> maxLenOrDefault maxLenArg \<or>
           (\<exists>sentence. g = [sentence] \<and> maxLenOrDefault maxLenArg < int (length sentence))) \<and>
        greedyBreaks (maxLenOrDefault maxLenArg) (groupsOf p)) \<and>
     (\<forall>chunks. chunkText (JSString s) maxLenArg = Inr chunks \<longrightarrow>
        (\<forall>c \<in> set chunks.
           int (length c) \<le> maxLenOrDefault maxLenArg \<or>
           (\<exists>p \<in> set (paragraphsOf s). \<exists>sentence \<in> set (sentencesOf (trim p)).
              c = trim sentence \<and> maxLenOrDefault maxLenArg < int (length sentence))))"
proof -
  define m where "m = maxLenOrDefault maxLenArg"
  define groupsOf where "groupsOf = (\<lambda>p. greedyGroups m [] (sentencesOf (trim p)))"
  have chunks: "chunkText (JSString s) maxLenArg =
       Inr (concat (map (\<lambda>p. map (\<lambda>g. trim (joinSentences g)) (groupsOf p)) (paragraphsOf s)))"
  proof -
    have "concat (map (paragraphChunks m) (paragraphsOf s)) =
          concat (map (\<lambda>p. map (\<lambda>g. trim (joinSentences g)) (groupsOf p)) (paragraphsOf s))"
      by (rule arg_cong [where f = concat], rule map_cong [OF refl])
        (simp add: paragraphChunks_greedyGroups paragraphsOf_trim groupsOf_def)
    then show ?thesis
      by (simp add: chunkText_def m_def)
  qed
  have bounded: "int (length (joinSentences g)) \<le> m \<or> (\<exists>sentence. g = [sentence] \<and> m < int (length sentence))"
    if "g \<in> set (groupsOf p)" for g p
  proof -
    have "int (length (joinSentences g)) \<le> m \<or> length g = 1"
      using greedyGroups_bounded [of "[]" m g "sentencesOf (trim p)"] that
      by (simp add: groupsOf_def)
    then show ?thesis
    proof
      assume "int (length (joinSentences g)) \<le> m"
      then show ?thesis by simp
    next
      assume "length g = 1"
      then obtain sentence where "g = [sentence]"
        by (cases g) auto
      then show ?thesis by (cases "int (length sentence) \<le> m") auto
    qed
  qed
  have groups: "concat (groupsOf p) = sentencesOf (trim p) \<and>
        [] \<notin> set (groupsOf p) \<and> [] \<notin> set (sentencesOf (trim p)) \<and>
        (\<forall>g \<in> set (groupsOf p).
           int (length (joinSentences g)) \<le> m \<or>
           (\<exists>sentence. g = [sentence] \<and> m < int (length sentence))) \<and>
        greedyBreaks m (groupsOf p)"
    if "p \<in> set (paragraphsOf s)" for p
    using bounded sentencesOf_trim_nonempty [OF paragraphsOf_trim [OF that]]
    by (simp add: groupsOf_def concat_greedyGroups greedyGroups_no_empty_group
        greedyBreaks_greedyGroups)
  have lengths: "int (length c) \<le> m \<or>
           (\<exists>p \<in> set (paragraphsOf s). \<exists>sentence \<in> set (sentencesOf (trim p)).
              c = trim sentence \<and> m < int (length sentence))"
    if "chunkText (JSString s) maxLenArg = Inr cs" and "c \<in> set cs" for cs c
  proof -
    from that chunks obtain p g where p: "p \<in> set (paragraphsOf s)"
      and g: "g \<in> set (groupsOf p)" and c: "c = trim (joinSentences g)"
      by auto
    from bounded [OF g] show ?thesis
    proof
      assume "int (length (joinSentences g)) \<le> m"
      then show ?thesis using length_trim_le [of "joinSentences g"] c by simp
    next
      assume "\<exists>sentence. g = [sentence] \<and> m < int (length sentence)"
      then obtain sentence where sg: "g = [sentence]" and long: "m < int (length sentence)"
        by blast
      have "sentence \<in> set g" using sg by simp
      then have "sentence \<in> set (concat (groupsOf p))" using g by auto
      then have "sentence \<in> set (sentencesOf (trim p))" using groups [OF p] by simp
      then show ?thesis using p c sg long by auto
    qed
  qed
  show ?thesis
  proof (intro exI [of _ groupsOf] conjI)
    show "chunkText (JSString s) maxLenArg =
       Inr (concat (map (\<lambda>p. map (\<lambda>g. trim (joinSentences g)) (groupsOf p)) (paragraphsOf s)))"
      by (rule chunks)
    show "\<forall>p \<in> set (paragraphsOf s).
        concat (groupsOf p) = sentencesOf (trim p) \<and>
        [] \<notin> set (groupsOf p) \<and> [] \<notin> set (sentencesOf (trim p)) \<and>
        (\<forall>g \<in> set (groupsOf p).
           int (length (joinSentences g)) \<le> maxLenOrDefault maxLenArg \<or>
           (\<exists>sentence. g = [sentence] \<and> maxLenOrDefault maxLenArg < int (length sentence))) \<and>
        greedyBreaks (maxLenOrDefault maxLenArg) (groupsOf p)"
      using groups unfolding m_def by blast
    show "\<forall>chunks. chunkText (JSString s) maxLenArg = Inr chunks \<longrightarrow>
        (\<forall>c \<in> set chunks.
           int (length c) \<le> maxLenOrDefault maxLenArg \<or>
           (\<exists>p \<in> set (paragraphsOf s). \<exists>sentence \<in> set (sentencesOf (trim p)).
              c = trim sentence \<and> maxLenOrDefault maxLenArg < int (length sentence)))"
      using lengths unfolding m_def by blast
  qed
qed

theorem chunkText_greedy_chunks_witness:
  "chunkText (JSString (lit ''Aa bb cc. Dd. Ee.'')) (Some 8) =
     Inr [lit ''Aa bb cc.'', lit ''Dd. Ee.''] \<and>
   paragraphsOf (lit ''Aa bb cc. Dd. Ee.'') = [lit ''Aa bb cc. Dd. Ee.''] \<and>
   sentencesOf (trim (lit ''Aa bb cc. Dd. Ee.'')) = [lit ''Aa bb cc.'', lit ''Dd.'', lit ''Ee.''] \<and>
   int (length (lit ''Dd. Ee.'')) \<le> maxLenOrDefault (Some 8) \<and>
   lit ''Aa bb cc.'' = trim (lit ''Aa bb cc.'') \<and>
   maxLenOrDefault (Some 8) < int (length (lit ''Aa bb cc.''))"
proof -
  note ws = trim_def trimStart_def isWhitespace_def inRange_def
  have p: "paragraphsOf (lit ''Aa bb cc. Dd. Ee.'') = [lit ''Aa bb cc. Dd. Ee.'']"
    by (simp add: paragraphsOf_def split_def paragraphBreakAt_def ws)
  have s: "sentencesOf (trim (lit ''Aa bb cc. Dd. Ee.'')) =
      [lit ''Aa bb cc.'', lit ''Dd.'', lit ''Ee.'']"
    by (simp add: sentencesOf_def split_def sentenceBreakAt_def afterAbbreviation_def
        ABBREVIATIONS_def startsWith_def isWordChar_def ws)
  have c: "chunkText (JSString (lit ''Aa bb cc. Dd. Ee.'')) (Some 8) =
      Inr [lit ''Aa bb cc.'', lit ''Dd. Ee.'']"
    by (simp add: chunkText_def paragraphChunks_def paragraphsOf_def paragraphBreakAt_def
        sentencesOf_def split_def sentenceBreakAt_def afterAbbreviation_def
        ABBREVIATIONS_def startsWith_def isWordChar_def maxLenOrDefault_def addSentence_def
        pushLast_def ws)
  have t2: "lit ''Aa bb cc.'' = trim (lit ''Aa bb cc.'')"
    by (simp add: ws)
  have m: "maxLenOrDefault (Some 8) < int (length (lit ''Aa bb cc.''))"
    "int (length (lit ''Dd. Ee.'')) \<le> maxLenOrDefault (Some 8)"
    by (simp_all add: maxLenOrDefault_def)
  from chunkText_greedy_chunks [of "lit ''Aa bb cc. Dd. Ee.''" "Some 8"] c p s t2 m
  show ?thesis by blast
qed

section \<open>Properties of the WAV writer\<close>

lemma length_setBytes [simp]: "length (setBytes offset bs buffer) = length buffer"
  by (induction bs arbitrary: offset buffer) auto

lemma nth_setBytes:
  "i < length buffer \<Longrightarrow>
   setBytes offset bs buffer ! i =
     (if offset \<le> i \<and> i < offset + length bs then bs ! (i - offset) else buffer ! i)"
proof (induction bs arbitrary: offset buffer)
  case Nil
  then show ?case by simp
next
  case (Cons b bs)
  show ?case
  proof (cases "i = offset")
    case True
    then show ?thesis using Cons by simp
  next
    case False
    then show ?thesis using Cons by (auto simp: nth_Cons' Suc_diff_le)
  qed
qed

lemma le32_decode:
  "(v::nat) mod 256 + 256 * (v div 256 mod 256) + 65536 * (v div 65536 mod 256) +
     16777216 * (v div 16777216 mod 256) = v mod 4294967296"
proof -
  have a: "v mod 4294967296 = 256 * (v div 256 mod 16777216) + v mod 256"
    using mod_mult2_eq [of v 256 16777216] by simp
  have b: "v div 256 mod 16777216 = 256 * (v div 256 div 256 mod 65536) + v div 256 mod 256"
    using mod_mult2_eq [of "v div 256" 256 65536] by simp
  have c: "v div 65536 mod 65536 = 256 * (v div 65536 div 256 mod 256) + v div 65536 mod 256"
    using mod_mult2_eq [of "v div 65536" 256 256] by simp
  have d: "v div 256 div 256 = v div 65536" "v div 65536 div 256 = v div 16777216"
    by (simp_all add: div_mult2_eq [symmetric])
  show ?thesis using a b c d by simp
qed

lemma le16_decode: "(v::nat) mod 256 + 256 * (v div 256 mod 256) = v mod 65536"
  using mod_mult2_eq [of v 256 256] by simp

lemma int16_decode:
  assumes "- 32768 \<le> v" and "v < 32768"
  shows "(let u = int (nat (v mod 65536) mod 256 + 256 * (nat (v mod 65536) div 256))
          in if 32768 \<le> u then u - 65536 else u) = v"
proof -
  have "nat (v mod 65536) mod 256 + 256 * (nat (v mod 65536) div 256) = nat (v mod 65536)"
    by simp
  moreover have "int (nat (v mod 65536)) = v mod 65536" by simp
  moreover have "v mod 65536 = (if v < 0 then v + 65536 else v)"
  proof (cases "v < 0")
    case True
    have "(v + 65536) mod 65536 = v + 65536"
      using assms True by (intro mod_pos_pos_trivial) auto
    then show ?thesis using True by simp
  next
    case False
    then show ?thesis using assms by (simp add: mod_pos_pos_trivial)
  qed
  ultimately show ?thesis using assms by (auto simp: Let_def)
qed

lemma sampleToInt16_range: "- 32767 \<le> sampleToInt16 x \<and> sampleToInt16 x \<le> 32767"
proof -
  have "- 1 \<le> max (- 1) (min 1 x)" "max (- 1) (min 1 x) \<le> 1" by auto
  then have "- 32767 \<le> max (- 1) (min 1 x) * 32767" "max (- 1) (min 1 x) * 32767 \<le> 32767"
    by auto
  then show ?thesis unfolding sampleToInt16_def by (simp add: le_floor_iff floor_le_iff)
qed


lemma nth_concat_pairs:
  assumes "\<And>x. length (f x) = 2" and "i < length xs"
  shows "concat (map f xs) ! (2 * i) = f (xs ! i) ! 0"
    and "concat (map f xs) ! (2 * i + 1) = f (xs ! i) ! 1"
  using assms(2)
proof (induction xs arbitrary: i)
  case Nil
  {
    case 1
    then show ?case by simp
  next
    case 2
    then show ?case by simp
  }
next
  case (Cons x xs)
  {
    case 1
    then show ?case using Cons.IH(1) [of "i - 1"] assms(1) [of x]
      by (cases i) (auto simp: nth_append)
  next
    case 2
    then show ?case using Cons.IH(2) [of "i - 1"] assms(1) [of x]
      by (cases i) (auto simp: nth_append)
  }
qed

lemma length_concat_pairs:
  assumes "\<And>x. length (f x) = 2"
  shows "length (concat (map f xs)) = 2 * length xs"
  by (induction xs) (auto simp: assms)

lemma length_int16Bytes: "length (int16Bytes v) = 2"
  by (simp add: int16Bytes_def Let_def)

lemmas wav_writes = writeWavFile_def writeString_def setUint32_def setUint16_def

lemma length_writeWavFile: "length (writeWavFile audioData sampleRate) = 44 + 2 * length audioData"
  by (simp add: wav_writes Let_def)

lemma setBytes_Cons_Suc: "setBytes (Suc off) bs (x # buf) = x # setBytes off bs buf"
  by (induction bs arbitrary: off buf x) auto

lemma setBytes_Cons_numeral:
  "setBytes (numeral k) bs (x # buf) = x # setBytes (pred_numeral k) bs buf"
  using setBytes_Cons_Suc [of "pred_numeral k" bs x buf] by (simp add: numeral_eq_Suc)

lemma setBytes_zeros:
  "length bs \<le> n \<Longrightarrow> setBytes 0 bs (replicate n 0) = bs @ replicate (n - length bs) 0"
proof (induction bs arbitrary: n)
  case Nil
  then show ?case by simp
next
  case (Cons b bs)
  then obtain m where n: "n = Suc m" by (cases n) auto
  then show ?case using Cons.IH [of m] Cons.prems by (simp add: setBytes_Cons_Suc)
qed

lemma writeWavFile_layout:
  "writeWavFile audioData sampleRate =
     lit ''RIFF'' @
     [(36 + length audioData * 2) mod 256, (36 + length audioData * 2) div 256 mod 256,
      (36 + length audioData * 2) div 65536 mod 256,
      (36 + length audioData * 2) div 16777216 mod 256] @
     lit ''WAVEfmt '' @ [16, 0, 0, 0, 1, 0, 1, 0] @
     [sampleRate mod 256, sampleRate div 256 mod 256, sampleRate div 65536 mod 256,
      sampleRate div 16777216 mod 256] @
     [(2 * sampleRate) mod 256, (2 * sampleRate) div 256 mod 256,
      (2 * sampleRate) div 65536 mod 256, (2 * sampleRate) div 16777216 mod 256] @
     [2, 0, 16, 0] @ lit ''data'' @
     [(length audioData * 2) mod 256, (length audioData * 2) div 256 mod 256,
      (length audioData * 2) div 65536 mod 256,
      (length audioData * 2) div 16777216 mod 256] @
     concat (map int16Bytes (map sampleToInt16 audioData))"
proof -
  have len: "length (concat (map (int16Bytes \<circ> sampleToInt16) audioData)) = length audioData * 2"
    using length_concat_pairs [of "int16Bytes \<circ> sampleToInt16" audioData]
    by (simp add: length_int16Bytes)
  show ?thesis
    by (simp add: wav_writes Let_def setBytes_Cons_numeral setBytes_Cons_Suc setBytes_zeros len
        del: setBytes.simps)
qed


lemma getUint32_bytes:
  assumes "buf ! off = v mod 256" and "buf ! (off + 1) = v div 256 mod 256"
    and "buf ! (off + 2) = v div 65536 mod 256" and "buf ! (off + 3) = v div 16777216 mod 256"
  shows "getUint32 buf off = v mod 4294967296"
  unfolding getUint32_def assms by (rule le32_decode)

lemma getUint16_bytes:
  assumes "buf ! off = v mod 256" and "buf ! (off + 1) = v div 256 mod 256"
  shows "getUint16 buf off = v mod 65536"
  unfolding getUint16_def assms by (rule le16_decode)

lemma header_fields:
  "getUint32 (writeWavFile audioData sampleRate) 4 = (36 + length audioData * 2) mod 4294967296"
  "getUint32 (writeWavFile audioData sampleRate) 16 = 16 mod 4294967296"
  "getUint16 (writeWavFile audioData sampleRate) 20 = 1 mod 65536"
  "getUint16 (writeWavFile audioData sampleRate) 22 = 1 mod 65536"
  "getUint32 (writeWavFile audioData sampleRate) 24 = sampleRate mod 4294967296"
  "getUint32 (writeWavFile audioData sampleRate) 28 = (2 * sampleRate) mod 4294967296"
  "getUint16 (writeWavFile audioData sampleRate) 32 = 2 mod 65536"
  "getUint16 (writeWavFile audioData sampleRate) 34 = 16 mod 65536"
  "getUint32 (writeWavFile audioData sampleRate) 40 = (length audioData * 2) mod 4294967296"
  by (rule getUint32_bytes getUint16_bytes; simp add: writeWavFile_layout)+

lemma header_tags:
  "take 4 (writeWavFile audioData sampleRate) = lit ''RIFF''"
  "take 8 (drop 8 (writeWavFile audioData sampleRate)) = lit ''WAVEfmt ''"
  "take 4 (drop 36 (writeWavFile audioData sampleRate)) = lit ''data''"
  by (simp_all add: writeWavFile_layout)

lemma sample_bytes:
  assumes "i < length audioData"
  shows "getInt16 (writeWavFile audioData sampleRate) (44 + 2 * i) = sampleToInt16 (audioData ! i)"
proof -
  let ?bytes = "concat (map int16Bytes (map sampleToInt16 audioData))"
  have len: "length ?bytes = 2 * length audioData"
    using length_concat_pairs [of int16Bytes "map sampleToInt16 audioData"]
    by (simp add: length_int16Bytes)
  have b0: "writeWavFile audioData sampleRate ! (44 + 2 * i) = ?bytes ! (2 * i)"
    using assms len by (simp add: wav_writes Let_def nth_setBytes)
  have b1: "writeWavFile audioData sampleRate ! (44 + 2 * i + 1) = ?bytes ! (2 * i + 1)"
    using assms len by (simp add: wav_writes Let_def nth_setBytes)
  have i': "i < length (map sampleToInt16 audioData)" using assms by simp
  have c0: "?bytes ! (2 * i) = int16Bytes (sampleToInt16 (audioData ! i)) ! 0"
    using nth_concat_pairs(1) [of int16Bytes i "map sampleToInt16 audioData", OF length_int16Bytes i']
      assms by simp
  have c1: "?bytes ! (2 * i + 1) = int16Bytes (sampleToInt16 (audioData ! i)) ! 1"
    using nth_concat_pairs(2) [of int16Bytes i "map sampleToInt16 audioData", OF length_int16Bytes i']
      assms by simp
  have r: "- 32768 \<le> sampleToInt16 (audioData ! i)" "sampleToInt16 (audioData ! i) < 32768"
    using sampleToInt16_range [of "audioData ! i"] by auto
  show ?thesis
    unfolding getInt16_def getUint16_def b0 b1 c0 c1
    using int16_decode [OF r] by (simp add: int16Bytes_def Let_def)
qed

text \<open>
  Claim C7, as stated, fails: the conversion is \<open>Math.floor\<close>, which rounds down, and not a
  truncation, which drops the fraction. The two differ at every negative sample whose
  scaled value is not an integer, as at \<open>-0.5\<close>.
\<close>

theorem sampleToInt16_floor_is_not_truncation:
  "sampleToInt16 (- 1 / 2) = - 16384 \<and>
   truncateToInteger (max (- 1) (min 1 (- 1 / 2)) * 32767) = - 16383"
  by (simp add: sampleToInt16_def truncateToInteger_def)

text \<open>
  Claim C7, amended: each sample is clamped to \<open>[-1, 1]\<close>, scaled by 32767 and rounded
  down (floor); 1.0 gives 32767 and -1.0 gives -32767. The file has 44 header bytes and
  two bytes for each sample; read back little endian, the header gives the format tag 1,
  one channel, the sample rate, the byte rate (twice the sample rate), the block
  alignment 2, 16 bits for each sample and the data size (two bytes for each sample),
  each 32-bit field modulo \<open>2^32\<close>, and the sample at index \<open>i\<close> is the signed 16-bit
  value at byte \<open>44 + 2 i\<close>.
\<close>

theorem writeWavFile_encoding:
  "length (writeWavFile audioData sampleRate) = 44 + 2 * length audioData \<and>
   take 4 (writeWavFile audioData sampleRate) = lit ''RIFF'' \<and>
   getUint32 (writeWavFile audioData sampleRate) 4 = (36 + 2 * length audioData) mod 2 ^ 32 \<and>
   take 8 (drop 8 (writeWavFile audioData sampleRate)) = lit ''WAVEfmt '' \<and>
   getUint32 (writeWavFile audioData sampleRate) 16 = 16 \<and>
   getUint16 (writeWavFile audioData sampleRate) 20 = 1 \<and>
   getUint16 (writeWavFile audioData sampleRate) 22 = 1 \<and>
   getUint32 (writeWavFile audioData sampleRate) 24 = sampleRate mod 2 ^ 32 \<and>
   getUint32 (writeWavFile audioData sampleRate) 28 = (2 * sampleRate) mod 2 ^ 32 \<and>
   getUint16 (writeWavFile audioData sampleRate) 32 = 2 \<and>
   getUint16 (writeWavFile audioData sampleRate) 34 = 16 \<and>
   take 4 (drop 36 (writeWavFile audioData sampleRate)) = lit ''data'' \<and>
   getUint32 (writeWavFile audioData sampleRate) 40 = (2 * length audioData) mod 2 ^ 32 \<and>
   (\<forall>i < length audioData.
      getInt16 (writeWavFile audioData sampleRate) (44 + 2 * i) =
        \<lfloor>max (- 1) (min 1 (audioData ! i)) * 32767\<rfloor>) \<and>
   sampleToInt16 1 = 32767 \<and> sampleToInt16 (- 1) = - 32767"
  using header_fields [of audioData sampleRate] header_tags [of audioData sampleRate]
    sample_bytes [of _ audioData sampleRate] length_writeWavFile [of audioData sampleRate]
  by (simp add: sampleToInt16_def mult.commute)

theorem writeWavFile_encoding_witness:
  "length (writeWavFile [1, - 1, - 1 / 2, 3] 44100) = 52 \<and>
   getUint32 (writeWavFile [1, - 1, - 1 / 2, 3] 44100) 24 = 44100 \<and>
   getUint32 (writeWavFile [1, - 1, - 1 / 2, 3] 44100) 28 = 88200 \<and>
   getUint32 (writeWavFile [1, - 1, - 1 / 2, 3] 44100) 40 = 8 \<and>
   getInt16 (writeWavFile [1, - 1, - 1 / 2, 3] 44100) 44 = 32767 \<and>
   getInt16 (writeWavFile [1, - 1, - 1 / 2, 3] 44100) 46 = - 32767 \<and>
   getInt16 (writeWavFile [1, - 1, - 1 / 2, 3] 44100) 48 = - 16384 \<and>
   getInt16 (writeWavFile [1, - 1, - 1 / 2, 3] 44100) 50 = 32767"
proof -
  let ?buf = "writeWavFile [1, - 1, - 1 / 2, 3] 44100"
  note enc = writeWavFile_encoding [of "[1, - 1, - 1 / 2, 3]" 44100]
  have s: "\<forall>i < 4. getInt16 ?buf (44 + 2 * i) =
      \<lfloor>max (- 1) (min 1 ([1, - 1, - 1 / 2, 3 :: real] ! i)) * 32767\<rfloor>"
    using enc by simp
  have g: "getInt16 ?buf (44 + 2 * i) =
      \<lfloor>max (- 1) (min 1 ([1, - 1, - 1 / 2, 3 :: real] ! i)) * 32767\<rfloor>" if "i < 4" for i
    using s that by blast
  have "getInt16 ?buf 44 = 32767" "getInt16 ?buf 46 = - 32767"
    "getInt16 ?buf 48 = - 16384" "getInt16 ?buf 50 = 32767"
    using g [of 0] g [of 1] g [of 2] g [of 3] by simp_all
  then show ?thesis using enc by simp
qed

section \<open>Properties of the latent sampler\<close>

lemma length_fill_ones [simp]:
  "length (foldl (\<lambda>row j. row[j := (1::real)]) row [0 ..< k]) = length row"
  by (induction k) auto


lemma length_maskRow [simp]: "length (maskRow len n) = nat n"
  by (simp add: maskRow_def)













section \<open>Properties of the inference run\<close>

subsection \<open>Copying the latent\<close>



lemma resizeFloat32_id: "length values = n \<Longrightarrow> resizeFloat32 n values = values"
  by (auto simp: resizeFloat32_def readFloat32_def intro: nth_equalityI)


subsection \<open>The denoising loop\<close>

lemma marks_append [simp]: "marks (xs @ ys) = marks xs @ marks ys"
  by (simp add: marks_def)

lemma marks_Cons [simp]: "marks (e # es) = marksOf e @ marks es"
  by (simp add: marks_def)

lemma marks_Nil [simp]: "marks [] = []"
  by (simp add: marks_def)

lemma marks_Progress [simp]: "marks (map Progress ps) = map Reported ps"
  by (induction ps) auto

lemma estimatorRuns_append [simp]:
  "estimatorRuns (xs @ ys) = estimatorRuns xs @ estimatorRuns ys"
  by (simp add: estimatorRuns_def)

lemma estimatorRuns_Cons [simp]: "estimatorRuns (e # es) = estimatorRunOf e @ estimatorRuns es"
  by (simp add: estimatorRuns_def)

lemma estimatorRuns_Nil [simp]: "estimatorRuns [] = []"
  by (simp add: estimatorRuns_def)

lemma estimatorRuns_Progress [simp]: "estimatorRuns (map Progress ps) = []"
  by (induction ps) auto

lemma vocoderRuns_append [simp]: "vocoderRuns (xs @ ys) = vocoderRuns xs @ vocoderRuns ys"
  by (simp add: vocoderRuns_def)

lemma vocoderRuns_Cons [simp]: "vocoderRuns (e # es) = vocoderRunOf e @ vocoderRuns es"
  by (simp add: vocoderRuns_def)

lemma vocoderRuns_Nil [simp]: "vocoderRuns [] = []"
  by (simp add: vocoderRuns_def)

lemma vocoderRuns_Progress [simp]: "vocoderRuns (map Progress ps) = []"
  by (induction ps) auto

lemma reports_append [simp]: "reports (xs @ ys) = reports xs @ reports ys"
  by (simp add: reports_def)

lemma reports_Cons [simp]: "reports (e # es) = reportOf e @ reports es"
  by (simp add: reports_def)

lemma reports_Nil [simp]: "reports [] = []"
  by (simp add: reports_def)

lemma reports_Progress [simp]: "reports (map Progress ps) = ps"
  by (induction ps) auto

lemma denoise_done:
  "\<not> step < N \<Longrightarrow> denoise w cb bsz ld ll emb style lm tm N step xt = ([], Inr xt)"
  by (subst denoise.simps) simp

lemma denoise_unfold:
  "step < N \<Longrightarrow>
   denoise w cb bsz ld ll emb style lm tm N step xt =
     (case flattenLatent bsz ld ll xt of
        Inl e \<Rightarrow> (map Progress (reported cb step N), Inl e)
      | Inr xtFlat \<Rightarrow>
          (case vectorEstOrt w (estimatorInputs bsz ld ll emb style lm tm N step xtFlat) of
             Inl e \<Rightarrow>
               (map Progress (reported cb step N) @
                [Run (estimatorInputs bsz ld ll emb style lm tm N step xtFlat)], Inl e)
           | Inr denoised \<Rightarrow>
               (map Progress (reported cb step N) @
                [Run (estimatorInputs bsz ld ll emb style lm tm N step xtFlat)] @
                fst (denoise w cb bsz ld ll emb style lm tm N (Suc step)
                       (unflattenLatent bsz ld ll denoised xt)),
                snd (denoise w cb bsz ld ll emb style lm tm N (Suc step)
                       (unflattenLatent bsz ld ll denoised xt)))))"
  by (subst denoise.simps)
    (auto simp: Let_def reported_def estimatorInputs_def split: sum.splits prod.splits option.splits)




lemma denoise_reports:
  "denoise w cb bsz ld ll emb style lm tm N step xt = (events, outcome) \<Longrightarrow>
   p \<in> set (reports events) \<Longrightarrow> \<exists>k. step \<le> k \<and> k < N \<and> p \<in> set (reported cb k N)"
proof (induction "N - step" arbitrary: step xt events outcome)
  case 0
  then show ?case by (simp add: denoise_done)
next
  case (Suc n)
  then have lt: "step < N" by simp
  have n: "n = N - Suc step" using Suc.hyps(2) by simp
  note ih = Suc.hyps(1) [OF n]
  show ?case
  proof (cases "p \<in> set (reported cb step N)")
    case True
    then show ?thesis using lt by auto
  next
    case False
    then obtain xtFlat denoised where
      "p \<in> set (reports (fst (denoise w cb bsz ld ll emb style lm tm N (Suc step)
          (unflattenLatent bsz ld ll denoised xt))))"
      using Suc.prems unfolding denoise_unfold [OF lt]
      by (auto split: sum.splits simp: estimatorInputs_def)
    then obtain k where "Suc step \<le> k" "k < N" "p \<in> set (reported cb k N)"
      using ih [OF prod.collapse [symmetric]] by blast
    then show ?thesis by (intro exI [of _ k]) auto
  qed
qed


subsection \<open>From the sampled latent to the waveform\<close>

lemma generate_shapes:
  assumes "generate w cb bsz emb style tm N xt latentMask \<noteq> ([], Inl TypeError)"
  obtains row0 ms r0 rs xs where "latentMask = [row0] # ms" and "xt = (r0 # rs) # xs"
  using assms by (auto simp: generate_def split: list.splits)

lemma generate_unfold:
  assumes "latentMask = [row0] # ms" and "xt = (r0 # rs) # xs"
  shows "generate w cb bsz emb style tm N xt latentMask =
     (case denoise w cb bsz (Suc (length rs)) (length r0) emb style
             (Tensor (concat (map concat latentMask)) [bsz, 1, length row0])
             tm N 0 (map (map (map Num)) xt) of
        (steps, Inl e) \<Rightarrow> (steps, Inl e)
      | (steps, Inr denoised) \<Rightarrow>
          (case vocode w bsz (Suc (length rs)) (length r0) denoised of
             (final, outcome) \<Rightarrow> (steps @ final, outcome)))"
  using assms by (simp add: generate_def Let_def)

lemma vocode_cases:
  "vocode w bsz ld ll x = (events, outcome) \<Longrightarrow>
   reports events = [] \<and> estimatorRuns events = [] \<and> marks events = [] \<and>
   (\<forall>wav. outcome = Inr wav \<longrightarrow>
      (\<exists>xFinal. flattenLatent bsz ld ll x = Inr xFinal \<and>
         vocoderOrt w (Vocode (Tensor xFinal [bsz, ld, ll])) = Inr wav \<and>
         events = [Run (Vocode (Tensor xFinal [bsz, ld, ll]))]))"
  by (auto simp: vocode_def Let_def split: sum.splits)


lemma generate_reports:
  assumes "generate w cb bsz emb style tm N xt latentMask = (events, outcome)"
    and "p \<in> set (reports events)"
  shows "\<exists>k. k < N \<and> p \<in> set (reported cb k N)"
proof (cases "generate w cb bsz emb style tm N xt latentMask = ([], Inl TypeError)")
  case True
  then show ?thesis using assms by simp
next
  case False
  then obtain row0 ms r0 rs xs where s: "latentMask = [row0] # ms" "xt = (r0 # rs) # xs"
    by (rule generate_shapes)
  obtain steps o1 where d: "denoise w cb bsz (Suc (length rs)) (length r0) emb style
       (Tensor (concat (map concat latentMask)) [bsz, 1, length row0]) tm N 0
       (map (map (map Num)) xt) = (steps, o1)"
    by (metis surj_pair)
  have "p \<in> set (reports steps)"
  proof (cases o1)
    case (Inl e)
    then show ?thesis using assms unfolding generate_unfold [OF s] d by simp
  next
    case (Inr x)
    obtain final o2 where v: "vocode w bsz (Suc (length rs)) (length r0) x =
        ((final :: 'a event list), o2)"
      by (metis surj_pair)
    then show ?thesis
      using assms vocode_cases [OF v] unfolding generate_unfold [OF s] d Inr by auto
  qed
  then show ?thesis using denoise_reports [OF d] by blast
qed



subsection \<open>One inference run\<close>

lemma infer_reports:
  assumes "infer w random textList style N speedArg cb = (events, outcome)"
    and "p \<in> set (reports events)"
  shows "\<exists>k. k < N \<and> p \<in> set (reported cb k N)"
  using assms
  by (auto simp: infer_def Let_def split: sum.splits list.splits prod.splits if_splits
      dest: generate_reports)

lemma infer_Inr:
  assumes "infer w random textList style N speedArg cb = (events, Inr (wav, duration))"
  obtains batch ids0 ids mask0 masks predicted textEmb xt latentMask later where
    "UnicodeProcessor_call (unicodeIndexer w) (normalizeNFKD w) textList = Inr batch"
    "textIds batch = ids0 # ids" "textMask batch = [mask0] # masks"
    "dpOrt w (PredictDuration (Tensor (concat (textIds batch)) [length textList, length ids0])
       (dp style)
       (Tensor (concat (map concat (textMask batch))) [length textList, 1, length mask0])) =
     Inr predicted"
    "textEncOrt w (EncodeText (Tensor (concat (textIds batch)) [length textList, length ids0])
       (ttl style)
       (Tensor (concat (map concat (textMask batch))) [length textList, 1, length mask0])) =
     Inr textEmb"
    "\<not> (speedOrDefault speedArg = 0 \<and> predicted \<noteq> [])"
    "duration = map (\<lambda>d. d / speedOrDefault speedArg) predicted"
    "sampleNoisyLatent random duration (sample_rate (cfgs w)) (base_chunk_size (cfgs w))
       (chunk_compress_factor (cfgs w)) (latent_dim (cfgs w)) = Inr (xt, latentMask)"
    "generate w cb (length textList) textEmb style
       (Tensor (concat (map concat (textMask batch))) [length textList, 1, length mask0])
       N xt latentMask = (later, Inr wav)"
    "events =
       Run (PredictDuration (Tensor (concat (textIds batch)) [length textList, length ids0])
         (dp style)
         (Tensor (concat (map concat (textMask batch))) [length textList, 1, length mask0])) #
       Run (EncodeText (Tensor (concat (textIds batch)) [length textList, length ids0])
         (ttl style)
         (Tensor (concat (map concat (textMask batch))) [length textList, 1, length mask0])) #
       later"
  using assms
  by (auto simp: infer_def Let_def split: sum.splits list.splits prod.splits if_splits)






end
